theory Spec2Isabelle
  imports Complex_Main "HOL-Library.AList" "HOL-Library.Log_Nat" "HOL-Library.Multiset"
begin

section \<open>Data model\<close>

text \<open>
  The analytics router reads two collections, users and challenges. A user's
  \<open>solvedChallenges\<close> and a challenge's \<open>solvedBy\<close> are arrays that the handlers
  always read through \<open>?.length || 0\<close>, so a missing array is a value of the model
  (\<open>None\<close>). Timestamps are milliseconds since the epoch. Points are integers, and
  counts, lengths and sums of points are kept as \<open>nat\<close> and \<open>int\<close>: below \<open>2^53\<close> the
  JavaScript \<open>+\<close> on them is exact, and \<open>user.points || 0\<close> is \<open>user.points\<close>. Where
  the code divides, multiplies by a fraction or prints decimals, Numbers are modelled as
  the floating-point values they are (next section).
  Fields that several JavaScript objects share (\<open>username\<close>, \<open>points\<close>, \<open>title\<close>, ...)
  carry a prefix in the projections, since record fields are global names here.
\<close>

record solved_ref =
  sr_title :: string
  sr_category :: string
  sr_difficulty :: string
  sr_points :: int

record user =
  username :: string
  email :: string
  role :: string
  points :: int
  solvedChallenges :: "solved_ref list option"
  createdAt :: int
  isBlocked :: bool

record solver =
  s_username :: string
  s_email :: string
  s_points :: int

record challenge =
  title :: string
  category :: string
  difficulty :: string
  c_points :: int
  isVisible :: bool
  solvedBy :: "solver list option"

text \<open>\<open>xs?.length || 0\<close>: the length of the array, 0 when it is missing.\<close>

definition length_or0 :: "'a list option \<Rightarrow> nat" where
  "length_or0 xs = (case xs of None \<Rightarrow> 0 | Some l \<Rightarrow> length l)"

text \<open>\<open>Model.countDocuments(filter)\<close>: the number of documents that match.\<close>

definition countDocuments :: "('a \<Rightarrow> bool) \<Rightarrow> 'a list \<Rightarrow> nat" where
  "countDocuments P docs = length (filter P docs)"


section \<open>JavaScript numbers\<close>

text \<open>
  A Number is an IEEE 754 binary64 value: a rational with a 53-bit significand, an
  infinity, or NaN (negative zero is not distinguished from zero). \<open>fl\<close> rounds a
  rational to the nearest such value, ties to even, with the subnormal spacing below
  \<open>2^-1022\<close> and overflow to an infinity from \<open>2^1024\<close> on. Every arithmetic
  operator rounds its exact result with \<open>fl\<close>.
\<close>

datatype number = Num rat | NaN | PInf | NInf

definition pow2 :: "int \<Rightarrow> rat" where
  "pow2 e = (if 0 \<le> e then 2 ^ nat e else 1 / 2 ^ nat (- e))"

text \<open>For \<open>x > 0\<close>, \<open>ilog2 x\<close> is the exponent \<open>e\<close> with \<open>2^e \<le> x < 2^(e+1)\<close>.\<close>

definition ilog2 :: "rat \<Rightarrow> int" where
  "ilog2 x = (let (p, q) = quotient_of x; d = bitlen p - bitlen q
              in if pow2 d \<le> x then d else d - 1)"

definition round_half_even :: "rat \<Rightarrow> int" where
  "round_half_even z = (let f = \<lfloor>z\<rfloor>; d = z - of_int f
      in if d < 1 / 2 then f else if 1 / 2 < d then f + 1 else if even f then f else f + 1)"

definition fl :: "rat \<Rightarrow> number" where
  "fl x = (if x = 0 then Num 0
           else let e = max (ilog2 \<bar>x\<bar>) (- 1022);
                    u = pow2 (e - 52);
                    m = round_half_even (x / u)
                in if 1024 \<le> e \<or> (e = 1023 \<and> 9007199254740992 \<le> \<bar>m\<bar>)
                   then (if 0 < x then PInf else NInf)
                   else Num (of_int m * u))"

fun js_neg :: "number \<Rightarrow> number" where
  "js_neg (Num a) = Num (- a)"
| "js_neg NaN = NaN"
| "js_neg PInf = NInf"
| "js_neg NInf = PInf"

fun js_add :: "number \<Rightarrow> number \<Rightarrow> number" where
  "js_add (Num a) (Num b) = fl (a + b)"
| "js_add NaN y = NaN"
| "js_add x NaN = NaN"
| "js_add PInf NInf = NaN"
| "js_add NInf PInf = NaN"
| "js_add PInf y = PInf"
| "js_add NInf y = NInf"
| "js_add x PInf = PInf"
| "js_add x NInf = NInf"

definition js_sub :: "number \<Rightarrow> number \<Rightarrow> number" where
  "js_sub x y = js_add x (js_neg y)"

fun js_mul :: "number \<Rightarrow> number \<Rightarrow> number" where
  "js_mul (Num a) (Num b) = fl (a * b)"
| "js_mul NaN y = NaN"
| "js_mul x NaN = NaN"
| "js_mul (Num a) y = (if a = 0 then NaN else if 0 < a then y else js_neg y)"
| "js_mul x (Num b) = (if b = 0 then NaN else if 0 < b then x else js_neg x)"
| "js_mul x y = (if x = y then PInf else NInf)"

fun js_div :: "number \<Rightarrow> number \<Rightarrow> number" where
  "js_div (Num a) (Num b) =
     (if b = 0 then (if a = 0 then NaN else if 0 < a then PInf else NInf) else fl (a / b))"
| "js_div NaN y = NaN"
| "js_div x NaN = NaN"
| "js_div (Num a) y = Num 0"
| "js_div x (Num b) = (if 0 \<le> b then x else js_neg x)"
| "js_div x y = NaN"

text \<open>\<open>x > 0\<close> on Numbers: false for NaN.\<close>

fun js_positive :: "number \<Rightarrow> bool" where
  "js_positive (Num a) = (0 < a)"
| "js_positive PInf = True"
| "js_positive x = False"

text \<open>\<open>Math.floor\<close>.\<close>

fun js_floor :: "number \<Rightarrow> number" where
  "js_floor (Num a) = Num (of_int \<lfloor>a\<rfloor>)"
| "js_floor x = x"

text \<open>
  \<open>Number.prototype.toFixed(2)\<close>. For a finite \<open>x\<close> below \<open>10^21\<close> in magnitude the
  result is the decimal numeral of \<open>n / 100\<close>, where \<open>n\<close> is the integer for which
  \<open>n / 100 - \<bar>x\<bar>\<close> is as close to zero as possible, the larger \<open>n\<close> when there are
  two, with a minus sign when \<open>x < 0\<close>: \<open>Fixed (x < 0) n\<close>, so that
  \<open>Fixed False 7692\<close> is the string \<open>76.92\<close>. For NaN, the infinities and magnitudes
  from \<open>10^21\<close> on it is the Number's own string form, \<open>Literal x\<close>.
\<close>

datatype js_string = Fixed bool nat | Literal number

fun toFixed2 :: "number \<Rightarrow> js_string" where
  "toFixed2 (Num x) =
     (if 10 ^ 21 \<le> \<bar>x\<bar> then Literal (Num x)
      else Fixed (x < 0) (nat \<lfloor>\<bar>x\<bar> * 100 + 1 / 2\<rfloor>))"
| "toFixed2 x = Literal x"

text \<open>
  String to Number (\<open>ToNumber\<close>, which \<open>100 - successRate\<close> applies to the string, and
  \<open>parseFloat\<close>): the Number nearest to the decimal.
\<close>

fun to_number :: "js_string \<Rightarrow> number" where
  "to_number (Fixed neg n) = fl ((if neg then - 1 else 1) * of_nat n / 100)"
| "to_number (Literal x) = x"

text \<open>A variable that holds a string on one branch and a Number on the other.\<close>

datatype js_value = JString js_string | JNumber number

fun value_to_number :: "js_value \<Rightarrow> number" where
  "value_to_number (JString s) = to_number s"
| "value_to_number (JNumber x) = x"


section \<open>Objects used as dictionaries\<close>

text \<open>
  \<open>stats.byCategory\<close>, \<open>stats.byDifficulty\<close> and \<open>usersPerDay\<close> are object literals
  \<open>{}\<close> indexed by a string. Their own properties are an association list in insertion
  order (the order in which JSON lists them). A read \<open>obj[k]\<close> of a key that is not
  an own property goes to \<open>Object.prototype\<close>, whose properties are functions (and
  \<open>__proto__\<close>, the prototype object itself): all truthy. (Keys that look like array
  indices would be listed first by JSON; no statement below depends on the order.)
\<close>

definition object_prototype_keys :: "string list" where
  "object_prototype_keys =
     [''constructor'', ''__defineGetter__'', ''__defineSetter__'', ''hasOwnProperty'',
      ''__lookupGetter__'', ''__lookupSetter__'', ''isPrototypeOf'',
      ''propertyIsEnumerable'', ''toString'', ''valueOf'', ''__proto__'',
      ''toLocaleString'']"

definition inherited :: "string \<Rightarrow> bool" where
  "inherited k = (k \<in> set object_prototype_keys)"

text \<open>
  The pattern \<open>if (!obj[k]) { obj[k] = init }\<close> followed by updates of \<open>obj[k]\<close>'s
  fields. An own entry is truthy and is updated. A key that is neither own nor inherited
  reads \<open>undefined\<close>: the entry is created from \<open>init\<close>, then updated. For a key that
  is not an own property and is a property of \<open>Object.prototype\<close> the guard reads the
  inherited value, creates nothing, and the updates land on the inherited object: the
  own properties of \<open>obj\<close> stay as they were.
\<close>

definition upsert :: "string \<Rightarrow> 'v \<Rightarrow> ('v \<Rightarrow> 'v) \<Rightarrow> (string \<times> 'v) list \<Rightarrow> (string \<times> 'v) list" where
  "upsert k init f obj =
     (case map_of obj k of
        Some e \<Rightarrow> AList.update k (f e) obj
      | None \<Rightarrow> if inherited k then obj else AList.update k (f init) obj)"


section \<open>Dates\<close>

text \<open>
  \<open>Date.prototype.toISOString\<close> on a time value \<open>t\<close> (milliseconds since the epoch,
  UTC): \<open>YYYY-MM-DDTHH:mm:ss.sssZ\<close>, the year with a sign and six digits outside
  0..9999, and a \<open>RangeError\<close> (here \<open>None\<close>) when \<open>t\<close> is outside the range of a
  Date, 8.64e15 ms either side of the epoch. \<open>civil_from_days\<close> is the proleptic
  Gregorian date of a day number (\<open>YearFromTime\<close>, \<open>MonthFromTime\<close>, \<open>DateFromTime\<close>).
\<close>

text \<open>The last \<open>w\<close> decimal digits of \<open>n\<close>, zero-padded.\<close>

fun digits :: "nat \<Rightarrow> nat \<Rightarrow> string" where
  "digits 0 n = []"
| "digits (Suc w) n = digits w (n div 10) @ [char_of (48 + n mod 10)]"

definition msPerDay :: int where
  "msPerDay = 24 * 60 * 60 * 1000"

definition civil_from_days :: "int \<Rightarrow> int \<times> int \<times> int" where
  "civil_from_days d =
     (let z = d + 719468;
          era = z div 146097;
          doe = z mod 146097;
          yoe = (doe - doe div 1460 + doe div 36524 - doe div 146096) div 365;
          doy = doe - (365 * yoe + yoe div 4 - yoe div 100);
          mp = (5 * doy + 2) div 153;
          dd = doy - (153 * mp + 2) div 5 + 1;
          mm = (if mp < 10 then mp + 3 else mp - 9);
          yy = yoe + era * 400 + (if mm \<le> 2 then 1 else 0)
      in (yy, mm, dd))"

definition year_string :: "int \<Rightarrow> string" where
  "year_string y =
     (if 0 \<le> y \<and> y \<le> 9999 then digits 4 (nat y)
      else (if y < 0 then ''-'' else ''+'') @ digits 6 (nat \<bar>y\<bar>))"

definition date_string :: "int \<Rightarrow> string" where
  "date_string t =
     (case civil_from_days (t div msPerDay) of
        (y, m, d) \<Rightarrow> year_string y @ ''-'' @ digits 2 (nat m) @ ''-'' @ digits 2 (nat d))"

definition time_string :: "int \<Rightarrow> string" where
  "time_string t =
     (let ms = nat (t mod msPerDay)
      in digits 2 (ms div 3600000) @ '':'' @ digits 2 (ms div 60000 mod 60) @ '':''
         @ digits 2 (ms div 1000 mod 60) @ ''.'' @ digits 3 (ms mod 1000))"

definition toISOString :: "int \<Rightarrow> string option" where
  "toISOString t =
     (if \<bar>t\<bar> \<le> 8640000000000000
      then Some (date_string t @ ''T'' @ time_string t @ ''Z'')
      else None)"

text \<open>\<open>s.split('T')[0]\<close>: the characters before the first \<open>T\<close>.\<close>

definition split_T_0 :: "string \<Rightarrow> string" where
  "split_T_0 s = takeWhile (\<lambda>c. c \<noteq> CHR ''T'') s"


section \<open>Sorting\<close>

text \<open>
  \<open>Array.prototype.sort(cmp)\<close> is a stable sort: \<open>a\<close> stays before \<open>b\<close> unless
  \<open>cmp(a, b) > 0\<close>. The store's \<open>.sort({field: -1})\<close> is taken the same way, as a stable
  descending sort of the collection in its stored order.
\<close>

fun insert_by :: "('a \<Rightarrow> 'a \<Rightarrow> int) \<Rightarrow> 'a \<Rightarrow> 'a list \<Rightarrow> 'a list" where
  "insert_by cmp x [] = [x]"
| "insert_by cmp x (y # ys) = (if cmp x y \<le> 0 then x # y # ys else y # insert_by cmp x ys)"

definition js_sort :: "('a \<Rightarrow> 'a \<Rightarrow> int) \<Rightarrow> 'a list \<Rightarrow> 'a list" where
  "js_sort cmp xs = foldr (insert_by cmp) xs []"

definition sort_desc :: "('a \<Rightarrow> int) \<Rightarrow> 'a list \<Rightarrow> 'a list" where
  "sort_desc f xs = js_sort (\<lambda>a b. f b - f a) xs"


section \<open>GET /overview\<close>

record overview =
  users_total :: nat
  users_active :: nat
  users_admins :: nat
  users_blocked :: nat
  challenges_total :: nat
  challenges_visible :: nat
  challenges_hidden :: int
  submissions_total :: nat
  avgPerUser :: js_value
  totalPoints :: int

definition days30 :: int where
  "days30 = 30 * 24 * 60 * 60 * 1000"

definition avgPointsPerUser :: "nat \<Rightarrow> int \<Rightarrow> js_value" where
  "avgPointsPerUser totalUsers totalPts =
     (if 0 < totalUsers
      then JString (toFixed2 (js_div (Num (of_int totalPts)) (Num (of_nat totalUsers))))
      else JNumber (Num 0))"

definition get_overview :: "int \<Rightarrow> user list \<Rightarrow> challenge list \<Rightarrow> overview" where
  "get_overview now users challenges =
     (let totalUsers = countDocuments (\<lambda>u. True) users;
          activeUsers = countDocuments (\<lambda>u. now - days30 \<le> createdAt u) users;
          adminUsers = countDocuments (\<lambda>u. role u = ''admin'') users;
          blockedUsers = countDocuments (\<lambda>u. isBlocked u) users;
          totalChallenges = countDocuments (\<lambda>c. True) challenges;
          visibleChallenges = countDocuments (\<lambda>c. isVisible c) challenges;
          totalSubmissions = foldl (\<lambda>sum u. sum + length_or0 (solvedChallenges u)) 0 users;
          totalPts = foldl (\<lambda>sum u. sum + points u) 0 users
      in \<lparr> users_total = totalUsers,
           users_active = activeUsers,
           users_admins = adminUsers,
           users_blocked = blockedUsers,
           challenges_total = totalChallenges,
           challenges_visible = visibleChallenges,
           challenges_hidden = int totalChallenges - int visibleChallenges,
           submissions_total = totalSubmissions,
           avgPerUser = avgPointsPerUser totalUsers totalPts,
           totalPoints = totalPts \<rparr>)"

text \<open>The roles listed at each route: \<open>authorize('admin', 'superadmin')\<close>.\<close>

definition analytics_roles :: "string list" where
  "analytics_roles = [''admin'', ''superadmin'']"

text \<open>
  Modelled from the spec: the middleware \<open>authorize\<close> (\<open>../middleware/auth\<close>) is not
  among the sources; the spec has a route admit an authenticated caller whose role is one
  of the roles listed.
\<close>

definition authorize :: "string list \<Rightarrow> string \<Rightarrow> bool" where
  "authorize roles r = (r \<in> set roles)"


section \<open>GET /user-engagement\<close>

record engagement_entry =
  e_username :: string
  joinedDate :: int
  challengesSolved :: nat
  e_points :: int
  isActive :: bool
  daysActive :: int

record engagement =
  highEngagement :: nat
  mediumEngagement :: nat
  lowEngagement :: nat
  inactive :: nat

definition engagement_of :: "int \<Rightarrow> user \<Rightarrow> engagement_entry" where
  "engagement_of now u =
     \<lparr> e_username = username u,
       joinedDate = createdAt u,
       challengesSolved = length_or0 (solvedChallenges u),
       e_points = points u,
       isActive = (\<not> isBlocked u),
       daysActive = (now - createdAt u) div (1000 * 60 * 60 * 24) \<rparr>"

definition is_high :: "engagement_entry \<Rightarrow> bool" where
  "is_high u = (5 \<le> challengesSolved u \<and> isActive u)"

definition is_medium :: "engagement_entry \<Rightarrow> bool" where
  "is_medium u = (2 \<le> challengesSolved u \<and> challengesSolved u < 5 \<and> isActive u)"

definition is_low :: "engagement_entry \<Rightarrow> bool" where
  "is_low u = (challengesSolved u < 2 \<and> isActive u)"

definition is_inactive :: "engagement_entry \<Rightarrow> bool" where
  "is_inactive u = (\<not> isActive u)"

definition summary :: "engagement_entry list \<Rightarrow> engagement" where
  "summary engagementData =
     \<lparr> highEngagement = length (filter is_high engagementData),
       mediumEngagement = length (filter is_medium engagementData),
       lowEngagement = length (filter is_low engagementData),
       inactive = length (filter is_inactive engagementData) \<rparr>"

definition get_user_engagement :: "int \<Rightarrow> user list \<Rightarrow> engagement \<times> engagement_entry list" where
  "get_user_engagement now users =
     (let engagementData = map (engagement_of now) (sort_desc createdAt users)
      in (summary engagementData, engagementData))"


section \<open>GET /challenge-stats\<close>

record category_stats =
  cat_count :: nat
  cat_solved :: nat

record difficulty_stats =
  diff_count :: nat
  avgPoints :: int

record solved_challenge =
  sc_title :: string
  sc_category :: string
  sc_difficulty :: string
  sc_points :: int
  sc_solvedBy :: "solver list"

record challenge_summary =
  cs_title :: string
  solves :: nat
  cs_points :: int

record stats =
  byCategory :: "(string \<times> category_stats) list"
  byDifficulty :: "(string \<times> difficulty_stats) list"
  topChallenges :: "challenge_summary list"
  leastSolved :: "challenge_summary list"
  st_solvedChallenges :: "solved_challenge list"

text \<open>
  One pass of the \<open>forEach\<close> over \<open>stats.byCategory\<close> and over
  \<open>stats.byDifficulty\<close>: the guard creates \<open>{ count: 0, solved: 0 }\<close>
  (\<open>{ count: 0, avgPoints: 0 }\<close>), then \<open>count++\<close> and \<open>+=\<close> update the entry.
\<close>

definition byCategory_step ::
  "(string \<times> category_stats) list \<Rightarrow> challenge \<Rightarrow> (string \<times> category_stats) list" where
  "byCategory_step obj c =
     upsert (category c) \<lparr> cat_count = 0, cat_solved = 0 \<rparr>
       (\<lambda>e. \<lparr> cat_count = cat_count e + 1,
               cat_solved = cat_solved e + length_or0 (solvedBy c) \<rparr>) obj"

definition byDifficulty_step ::
  "(string \<times> difficulty_stats) list \<Rightarrow> challenge \<Rightarrow> (string \<times> difficulty_stats) list" where
  "byDifficulty_step obj c =
     upsert (difficulty c) \<lparr> diff_count = 0, avgPoints = 0 \<rparr>
       (\<lambda>e. \<lparr> diff_count = diff_count e + 1, avgPoints = avgPoints e + c_points c \<rparr>) obj"

definition solved_projection :: "challenge \<Rightarrow> solver list \<Rightarrow> solved_challenge" where
  "solved_projection c us =
     \<lparr> sc_title = title c,
       sc_category = category c,
       sc_difficulty = difficulty c,
       sc_points = c_points c,
       sc_solvedBy = map (\<lambda>u. \<lparr> s_username = s_username u, s_email = s_email u,
                                 s_points = s_points u \<rparr>) us \<rparr>"

definition solvedChallenges_step :: "solved_challenge list \<Rightarrow> challenge \<Rightarrow> solved_challenge list" where
  "solvedChallenges_step acc c =
     (case solvedBy c of
        Some us \<Rightarrow> if 0 < length us then acc @ [solved_projection c us] else acc
      | None \<Rightarrow> acc)"

definition stats_step :: "stats \<Rightarrow> challenge \<Rightarrow> stats" where
  "stats_step st c =
     st \<lparr> byCategory := byCategory_step (byCategory st) c,
          byDifficulty := byDifficulty_step (byDifficulty st) c,
          st_solvedChallenges := solvedChallenges_step (st_solvedChallenges st) c \<rparr>"

definition empty_stats :: stats where
  "empty_stats = \<lparr> byCategory = [], byDifficulty = [], topChallenges = [], leastSolved = [],
                    st_solvedChallenges = [] \<rparr>"

definition solve_count :: "challenge \<Rightarrow> int" where
  "solve_count c = int (length_or0 (solvedBy c))"

definition summarise :: "challenge \<Rightarrow> challenge_summary" where
  "summarise c = \<lparr> cs_title = title c, solves = length_or0 (solvedBy c), cs_points = c_points c \<rparr>"

text \<open>
  \<open>challenges.sort(...)\<close> sorts the array in place, so the second sort (ascending, for
  \<open>leastSolved\<close>) starts from the array as the first (descending) left it.
\<close>

definition get_challenge_stats :: "challenge list \<Rightarrow> stats" where
  "get_challenge_stats challenges =
     (let st = foldl stats_step empty_stats challenges;
          sorted1 = js_sort (\<lambda>a b. solve_count b - solve_count a) challenges;
          top5 = map summarise (take 5 sorted1);
          sorted2 = js_sort (\<lambda>a b. solve_count a - solve_count b) sorted1;
          least5 = map summarise (take 5 sorted2)
      in st \<lparr> topChallenges := top5, leastSolved := least5 \<rparr>)"


section \<open>GET /traffic\<close>

datatype error = ServerError

record traffic =
  last30Days :: nat
  last7Days :: nat
  today :: nat
  dailyBreakdown :: "(string \<times> nat) list"

definition days7 :: int where
  "days7 = 7 * 24 * 60 * 60 * 1000"

text \<open>
  \<open>usersPerDay[day] = (usersPerDay[day] || 0) + 1\<close>. A \<open>toISOString\<close> that throws ends
  the request in the handler's \<open>catch\<close> (status 500).
\<close>

definition usersPerDay_step :: "(string \<times> nat) list \<Rightarrow> string \<Rightarrow> (string \<times> nat) list" where
  "usersPerDay_step obj day =
     AList.update day ((case map_of obj day of Some n \<Rightarrow> n | None \<Rightarrow> 0) + 1) obj"

fun usersPerDay_loop :: "(string \<times> nat) list \<Rightarrow> user list \<Rightarrow> error + (string \<times> nat) list" where
  "usersPerDay_loop obj [] = Inr obj"
| "usersPerDay_loop obj (u # us) =
     (case toISOString (createdAt u) of
        None \<Rightarrow> Inl ServerError
      | Some s \<Rightarrow> usersPerDay_loop (usersPerDay_step obj (split_T_0 s)) us)"

text \<open>
  \<open>now\<close> is \<open>Date.now()\<close>, \<open>midnight\<close> the start of the server's local day
  (\<open>today.setHours(0, 0, 0, 0)\<close>).
\<close>

definition get_traffic :: "int \<Rightarrow> int \<Rightarrow> user list \<Rightarrow> error + traffic" where
  "get_traffic now midnight all_users =
     (let thirtyDaysAgo = now - days30;
          sevenDaysAgo = now - days7;
          totalUsersLast30 = countDocuments (\<lambda>u. thirtyDaysAgo \<le> createdAt u) all_users;
          totalUsersLast7 = countDocuments (\<lambda>u. sevenDaysAgo \<le> createdAt u) all_users;
          totalUsersToday = countDocuments (\<lambda>u. midnight \<le> createdAt u) all_users;
          users = filter (\<lambda>u. thirtyDaysAgo \<le> createdAt u) all_users
      in case usersPerDay_loop [] users of
           Inl e \<Rightarrow> Inl e
         | Inr usersPerDay \<Rightarrow>
             Inr \<lparr> last30Days = totalUsersLast30, last7Days = totalUsersLast7,
                   today = totalUsersToday, dailyBreakdown = usersPerDay \<rparr>)"


section \<open>GET /leaderboard-stats\<close>

record leaderboard_entry =
  rank :: nat
  l_username :: string
  l_points :: int
  l_challengesSolved :: nat

text \<open>\<open>User.find().sort({ points: -1 }).limit(10)\<close>.\<close>

definition topUsers :: "user list \<Rightarrow> user list" where
  "topUsers users = take 10 (sort_desc points users)"

definition topUsersData :: "user list \<Rightarrow> leaderboard_entry list" where
  "topUsersData found =
     map (\<lambda>(index, u). \<lparr> rank = index + 1, l_username = username u, l_points = points u,
                          l_challengesSolved = length_or0 (solvedChallenges u) \<rparr>)
         (enumerate 0 found)"

definition get_leaderboard_stats :: "user list \<Rightarrow> leaderboard_entry list" where
  "get_leaderboard_stats users = topUsersData (topUsers users)"


section \<open>GET /submissions\<close>

record user_submissions =
  us_username :: string
  us_email :: string
  us_submissions :: nat
  us_points :: int
  us_challenges :: "solved_ref list"

record challenge_submissions =
  chs_title :: string
  chs_category :: string
  chs_difficulty :: string
  chs_points :: int
  chs_submissions :: nat

record submissions_overview =
  totalSubmissions :: nat
  successfulSubmissions :: nat
  estimatedFailedSubmissions :: number
  estimatedTotalAttempts :: number
  successRate :: number
  failureRate :: number

record submissions_acc =
  acc_total :: nat
  acc_successful :: nat
  acc_byUser :: "user_submissions list"

definition user_step :: "submissions_acc \<Rightarrow> user \<Rightarrow> submissions_acc" where
  "user_step acc u =
     (let userSubmissions = length_or0 (solvedChallenges u)
      in \<lparr> acc_total = acc_total acc + userSubmissions,
           acc_successful = acc_successful acc + userSubmissions,
           acc_byUser =
             (if 0 < userSubmissions
              then acc_byUser acc @
                   [\<lparr> us_username = username u, us_email = email u,
                      us_submissions = userSubmissions, us_points = points u,
                      us_challenges =
                        (case solvedChallenges u of
                           Some cs \<Rightarrow> map (\<lambda>c. \<lparr> sr_title = sr_title c, sr_category = sr_category c,
                                                   sr_difficulty = sr_difficulty c,
                                                   sr_points = sr_points c \<rparr>) cs
                         | None \<Rightarrow> []) \<rparr>]
              else acc_byUser acc) \<rparr>)"

definition challenge_step :: "challenge_submissions list \<Rightarrow> challenge \<Rightarrow> challenge_submissions list" where
  "challenge_step acc c =
     (let submissions = length_or0 (solvedBy c)
      in if 0 < submissions
         then acc @ [\<lparr> chs_title = title c, chs_category = category c,
                        chs_difficulty = difficulty c, chs_points = c_points c,
                        chs_submissions = submissions \<rparr>]
         else acc)"

text \<open>
  The estimate, line by line. \<open>0.3\<close> is the Number nearest to 3/10; \<open>successRate\<close> is a
  string on the guarded branch and the Number 0 on the other; \<open>100 - successRate\<close>
  converts it back to a Number.
\<close>

definition estimatedFailed :: "nat \<Rightarrow> number" where
  "estimatedFailed subs = js_floor (js_mul (Num (of_nat subs)) (fl (3 / 10)))"

definition estimatedAttempts :: "nat \<Rightarrow> number" where
  "estimatedAttempts subs = js_add (Num (of_nat subs)) (estimatedFailed subs)"

definition successRate_var :: "nat \<Rightarrow> js_value" where
  "successRate_var subs =
     (if js_positive (estimatedAttempts subs)
      then JString (toFixed2 (js_mul (js_div (Num (of_nat subs)) (estimatedAttempts subs)) (Num 100)))
      else JNumber (Num 0))"

definition failureRate_var :: "nat \<Rightarrow> js_string" where
  "failureRate_var subs = toFixed2 (js_sub (Num 100) (value_to_number (successRate_var subs)))"

definition get_submissions ::
  "user list \<Rightarrow> challenge list \<Rightarrow>
     submissions_overview \<times> user_submissions list \<times> challenge_submissions list" where
  "get_submissions users challenges =
     (let acc = foldl user_step \<lparr> acc_total = 0, acc_successful = 0, acc_byUser = [] \<rparr> users;
          submissionsByChallenge = foldl challenge_step [] challenges;
          subs = acc_total acc
      in (\<lparr> totalSubmissions = subs,
            successfulSubmissions = acc_successful acc,
            estimatedFailedSubmissions = estimatedFailed subs,
            estimatedTotalAttempts = estimatedAttempts subs,
            successRate = value_to_number (successRate_var subs),
            failureRate = to_number (failureRate_var subs) \<rparr>,
          js_sort (\<lambda>a b. int (us_submissions b) - int (us_submissions a)) (acc_byUser acc),
          js_sort (\<lambda>a b. int (chs_submissions b) - int (chs_submissions a)) submissionsByChallenge))"


section \<open>Sample data\<close>

text \<open>Concrete documents on which the theorems below are instantiated.\<close>

definition alice :: user where
  "alice = \<lparr> username = ''alice'', email = ''alice@ctf.test'', role = ''user'', points = 200,
             solvedChallenges = Some (replicate 5 \<lparr> sr_title = ''t'', sr_category = ''web'',
                sr_difficulty = ''easy'', sr_points = 40 \<rparr>),
             createdAt = 1700000000000, isBlocked = False \<rparr>"

definition bob :: solver where
  "bob = \<lparr> s_username = ''bob'', s_email = ''bob@ctf.test'', s_points = 150 \<rparr>"

definition web_challenge :: challenge where
  "web_challenge = \<lparr> title = ''sqli'', category = ''web'', difficulty = ''easy'',
                      c_points = 100, isVisible = True, solvedBy = Some [bob] \<rparr>"

definition unsolved_challenge :: challenge where
  "unsolved_challenge = \<lparr> title = ''heap'', category = ''pwn'', difficulty = ''hard'',
                           c_points = 500, isVisible = True, solvedBy = Some [] \<rparr>"

text \<open>
  Challenges whose category, or difficulty, is the name of a property that every object
  inherits.
\<close>

definition constructor_challenge :: challenge where
  "constructor_challenge = \<lparr> title = ''ctor'', category = ''constructor'', difficulty = ''easy'',
                              c_points = 100, isVisible = True, solvedBy = Some [] \<rparr>"

definition toString_challenge :: challenge where
  "toString_challenge = \<lparr> title = ''fmt'', category = ''misc'', difficulty = ''toString'',
                           c_points = 300, isVisible = True, solvedBy = Some [bob] \<rparr>"


definition three_users :: "user list" where
  "three_users =
     [alice \<lparr> username := ''u100'', points := 100 \<rparr>,
      alice \<lparr> username := ''u50'', points := 50, solvedChallenges := None \<rparr>,
      alice \<lparr> username := ''u200'', points := 200 \<rparr>]"

text \<open>
  Four sign-ups: two on 14 November 2023, one on 3 November 2023 and one in September
  2020, seen from 14 November 2023, 22:13:20 UTC.
\<close>

definition sample_now :: int where
  "sample_now = 1700000000000"

definition signups :: "user list" where
  "signups =
     [alice,
      alice \<lparr> username := ''carol'', createdAt := 1699000000000 \<rparr>,
      alice \<lparr> username := ''dave'', createdAt := 1699999000000 \<rparr>,
      alice \<lparr> username := ''erin'', createdAt := 1600000000000 \<rparr>]"


section \<open>Sorting: the comparator sorts are the library's stable sort\<close>

lemma insert_by_insort_key:
  assumes "\<And>a b. (cmp a b \<le> 0) = (f a \<le> f b)"
  shows "insert_by cmp x ys = insort_key f x ys"
  by (induction ys) (simp_all add: assms)

lemma js_sort_sort_key:
  assumes "\<And>a b. (cmp a b \<le> 0) = (f a \<le> f b)"
  shows "js_sort cmp xs = sort_key f xs"
  by (induction xs) (simp_all add: js_sort_def insert_by_insort_key[OF assms])

lemma sort_desc_sort_key: "sort_desc f xs = sort_key (\<lambda>x. - f x) xs"
  unfolding sort_desc_def by (rule js_sort_sort_key) auto

lemma length_filter_sort_desc:
  "length (filter P (sort_desc f xs)) = length (filter P xs)"
  by (simp add: sort_desc_sort_key filter_sort)


section \<open>User engagement: the tiers partition the users\<close>

lemma summary_total:
  "highEngagement (summary xs) + mediumEngagement (summary xs) + lowEngagement (summary xs)
     + inactive (summary xs) = length xs"
  by (induction xs) (auto simp: summary_def is_high_def is_medium_def is_low_def is_inactive_def)

text \<open>
  Claim C3. The four counts of the summary add up to the number of users. Each count is
  the number of users of its tier: high, medium and low are the users that are not
  blocked with at least 5, with 2 to 4, and with fewer than 2 solved challenges, and
  inactive the blocked users. A user that is not blocked satisfies exactly one of the
  three tier filters and not the inactive one; a blocked user satisfies the inactive
  filter and none of the three.
\<close>

theorem engagement_tiers_partition:
  fixes now :: int and users :: "user list"
  defines "s \<equiv> fst (get_user_engagement now users)"
  defines "solved \<equiv> \<lambda>u. length_or0 (solvedChallenges u)"
  shows "highEngagement s + mediumEngagement s + lowEngagement s + inactive s = length users
    \<and> highEngagement s = length (filter (\<lambda>u. \<not> isBlocked u \<and> 5 \<le> solved u) users)
    \<and> mediumEngagement s = length (filter (\<lambda>u. \<not> isBlocked u \<and> 2 \<le> solved u \<and> solved u < 5) users)
    \<and> lowEngagement s = length (filter (\<lambda>u. \<not> isBlocked u \<and> solved u < 2) users)
    \<and> inactive s = length (filter isBlocked users)
    \<and> (\<forall>u \<in> set users.
          let e = engagement_of now u in
            (\<not> isBlocked u \<longrightarrow>
               (of_bool (is_high e) + of_bool (is_medium e) + of_bool (is_low e) = (1::nat))
               \<and> \<not> is_inactive e)
          \<and> (isBlocked u \<longrightarrow>
               is_inactive e \<and> \<not> is_high e \<and> \<not> is_medium e \<and> \<not> is_low e))"
proof -
  have tot: "highEngagement s + mediumEngagement s + lowEngagement s + inactive s = length users"
    unfolding s_def get_user_engagement_def Let_def fst_conv
    by (simp add: summary_total sort_desc_sort_key)
  have hi: "highEngagement s = length (filter (\<lambda>u. \<not> isBlocked u \<and> 5 \<le> solved u) users)"
    unfolding s_def get_user_engagement_def Let_def fst_conv summary_def
    by (simp add: length_filter_sort_desc o_def is_high_def engagement_of_def solved_def conj_commute)
  have me: "mediumEngagement s
      = length (filter (\<lambda>u. \<not> isBlocked u \<and> 2 \<le> solved u \<and> solved u < 5) users)"
    unfolding s_def get_user_engagement_def Let_def fst_conv summary_def
    by (simp add: length_filter_sort_desc o_def is_medium_def engagement_of_def solved_def conj_ac)
  have lo: "lowEngagement s = length (filter (\<lambda>u. \<not> isBlocked u \<and> solved u < 2) users)"
    unfolding s_def get_user_engagement_def Let_def fst_conv summary_def
    by (simp add: length_filter_sort_desc o_def is_low_def engagement_of_def solved_def conj_commute)
  have ina: "inactive s = length (filter isBlocked users)"
    unfolding s_def get_user_engagement_def Let_def fst_conv summary_def
    by (simp add: length_filter_sort_desc o_def is_inactive_def engagement_of_def)
  have each: "\<forall>u \<in> set users.
          let e = engagement_of now u in
            (\<not> isBlocked u \<longrightarrow>
               (of_bool (is_high e) + of_bool (is_medium e) + of_bool (is_low e) = (1::nat))
               \<and> \<not> is_inactive e)
          \<and> (isBlocked u \<longrightarrow>
               is_inactive e \<and> \<not> is_high e \<and> \<not> is_medium e \<and> \<not> is_low e)"
    by (auto simp: Let_def is_high_def is_medium_def is_low_def is_inactive_def engagement_of_def)
  from tot hi me lo ina each show ?thesis by blast
qed

theorem engagement_tiers_partition_witness:
  "highEngagement (fst (get_user_engagement 0 [alice, alice \<lparr> isBlocked := True \<rparr>])) = 1
   \<and> inactive (fst (get_user_engagement 0 [alice, alice \<lparr> isBlocked := True \<rparr>])) = 1
   \<and> is_high (engagement_of 0 alice)
   \<and> \<not> is_medium (engagement_of 0 alice)
   \<and> \<not> is_high (engagement_of 0 (alice \<lparr> isBlocked := True \<rparr>))
   \<and> is_inactive (engagement_of 0 (alice \<lparr> isBlocked := True \<rparr>))"
  using engagement_tiers_partition [of 0 "[alice, alice \<lparr> isBlocked := True \<rparr>]"]
  by (simp add: alice_def length_or0_def Let_def is_high_def is_medium_def is_low_def
      is_inactive_def engagement_of_def)


section \<open>Overview: who is counted as an admin\<close>

text \<open>
  Claim C10. \<open>users.admins\<close> is the number of users whose role is the string
  \<open>admin\<close>. Taking the superadmins out of the collection does not change it, and a
  collection of superadmins alone has no admin, although a superadmin passes the
  route's \<open>authorize('admin', 'superadmin')\<close>.
\<close>

theorem admins_counts_role_admin_only:
  "users_admins (get_overview now users challenges)
     = length (filter (\<lambda>u. role u = ''admin'') users)
   \<and> users_admins (get_overview now (filter (\<lambda>u. role u \<noteq> ''superadmin'') users) challenges)
     = users_admins (get_overview now users challenges)
   \<and> users_admins (get_overview now (filter (\<lambda>u. role u = ''superadmin'') users) challenges) = 0
   \<and> authorize analytics_roles ''superadmin''"
proof -
  have "filter (\<lambda>u. role u = ''admin'') (filter (\<lambda>u. role u \<noteq> ''superadmin'') users)
        = filter (\<lambda>u. role u = ''admin'') users"
    by (induction users) auto
  moreover have "filter (\<lambda>u. role u = ''admin'') (filter (\<lambda>u. role u = ''superadmin'') users) = []"
    by (induction users) auto
  ultimately show ?thesis
    by (simp add: get_overview_def Let_def countDocuments_def authorize_def analytics_roles_def)
qed


section \<open>Dictionaries: what a pass over the collection leaves in the object\<close>

lemma map_of_upsert:
  "map_of (upsert k z f obj) k' =
     (if k' = k \<and> \<not> (map_of obj k = None \<and> inherited k)
      then Some (f (case map_of obj k of None \<Rightarrow> z | Some e \<Rightarrow> e))
      else map_of obj k')"
  by (auto simp: upsert_def update_conv' split: option.splits)

lemma distinct_upsert:
  "distinct (map fst obj) \<Longrightarrow> distinct (map fst (upsert k z f obj))"
  by (auto simp: upsert_def distinct_update split: option.splits)

lemma sum_list_update:
  fixes g :: "'v \<Rightarrow> 'n::cancel_comm_monoid_add"
  shows "sum_list (map (\<lambda>p. g (snd p)) (AList.update k v obj))
           + (case map_of obj k of None \<Rightarrow> 0 | Some e \<Rightarrow> g e)
         = sum_list (map (\<lambda>p. g (snd p)) obj) + g v"
  by (induction obj) (auto simp: add_ac)

lemma sum_list_upsert:
  fixes g :: "'v \<Rightarrow> 'n::cancel_comm_monoid_add"
  assumes "g z = 0" and "\<And>e. g (f e) = g e + w"
  shows "sum_list (map (\<lambda>p. g (snd p)) (upsert k z f obj))
         = sum_list (map (\<lambda>p. g (snd p)) obj)
           + (if map_of obj k = None \<and> inherited k then 0 else w)"
proof (cases "map_of obj k")
  case None
  show ?thesis
    using sum_list_update[of g k "f z" obj] None assms
    by (simp add: upsert_def)
next
  case (Some e)
  have "g e + sum_list (map (\<lambda>p. g (snd p)) (AList.update k (f e) obj))
        = g e + (sum_list (map (\<lambda>p. g (snd p)) obj) + w)"
    using sum_list_update[of g k "f e" obj] Some assms by (simp add: add_ac)
  then have "sum_list (map (\<lambda>p. g (snd p)) (AList.update k (f e) obj))
        = sum_list (map (\<lambda>p. g (snd p)) obj) + w"
    by (simp only: add_left_cancel)
  then show ?thesis using Some by (simp add: upsert_def)
qed

text \<open>A key that is dead (absent and inherited) stays dead, any other stays alive.\<close>

lemma dead_upsert:
  "(map_of (upsert k z f obj) k' = None \<and> inherited k')
     = (map_of obj k' = None \<and> inherited k')"
  by (auto simp: map_of_upsert)

lemma dead_foldl:
  "(map_of (foldl (\<lambda>obj c. upsert (key c) z (f c) obj) obj cs) k' = None \<and> inherited k')
     = (map_of obj k' = None \<and> inherited k')"
  by (induction cs arbitrary: obj) (simp_all add: dead_upsert)

lemma sum_list_foldl_upsert:
  fixes g :: "'v \<Rightarrow> 'n::cancel_comm_monoid_add"
  assumes "g z = 0" and "\<And>c e. g (f c e) = g e + w c"
  shows "sum_list (map (\<lambda>p. g (snd p)) (foldl (\<lambda>obj c. upsert (key c) z (f c) obj) obj cs))
         = sum_list (map (\<lambda>p. g (snd p)) obj)
           + sum_list (map w (filter (\<lambda>c. \<not> (map_of obj (key c) = None \<and> inherited (key c))) cs))"
proof (induction cs arbitrary: obj)
  case Nil
  show ?case by simp
next
  case (Cons c cs)
  have step: "sum_list (map (\<lambda>p. g (snd p)) (upsert (key c) z (f c) obj))
         = sum_list (map (\<lambda>p. g (snd p)) obj)
           + (if map_of obj (key c) = None \<and> inherited (key c) then 0 else w c)"
    by (rule sum_list_upsert) (simp_all add: assms)
  show ?case
    by (simp add: Cons.IH step dead_upsert add_ac)
qed

lemma map_of_foldl_upsert:
  "map_of (foldl (\<lambda>obj c. upsert (key c) z (f c) obj) obj cs) k =
     (if map_of obj k = None \<and> inherited k then None
      else if filter (\<lambda>c. key c = k) cs = [] then map_of obj k
      else Some (foldl (\<lambda>e c. f c e) (case map_of obj k of None \<Rightarrow> z | Some e \<Rightarrow> e)
                   (filter (\<lambda>c. key c = k) cs)))"
proof (induction cs arbitrary: obj)
  case Nil
  show ?case by simp
next
  case (Cons c cs)
  show ?case
    by (simp add: Cons.IH map_of_upsert)
qed

lemma distinct_foldl_upsert:
  "distinct (map fst obj) \<Longrightarrow>
   distinct (map fst (foldl (\<lambda>obj c. upsert (key c) z (f c) obj) obj cs))"
  by (induction cs arbitrary: obj) (simp_all add: distinct_upsert)


section \<open>Dates: the day key of a time value\<close>

lemma of_char_digit: "d < 10 \<Longrightarrow> of_char (char_of (48 + d :: nat)) = (48 + d :: nat)"
  by (simp add: of_char_of)

lemma digits_chars: "c \<in> set (digits w n) \<Longrightarrow> 48 \<le> (of_char c :: nat) \<and> (of_char c :: nat) < 58"
proof (induction w arbitrary: n)
  case 0
  then show ?case by simp
next
  case (Suc w)
  have "n mod 10 < 10" by simp
  then have "(of_char (char_of (48 + n mod 10 :: nat)) :: nat) = 48 + n mod 10"
    by (rule of_char_digit)
  with Suc show ?case by auto
qed

lemma length_digits [simp]: "length (digits w n) = w"
  by (induction w arbitrary: n) simp_all

lemma year_string_chars:
  "c \<in> set (year_string y) \<Longrightarrow> (of_char c :: nat) < 58"
  using digits_chars[of c] by (auto simp: year_string_def split: if_splits)

lemma date_string_no_T: "CHR ''T'' \<notin> set (date_string t)"
proof
  assume "CHR ''T'' \<in> set (date_string t)"
  then have "(of_char (CHR ''T'') :: nat) < 58"
    using year_string_chars[of "CHR ''T''"] digits_chars[of "CHR ''T''"]
    by (auto simp: date_string_def split: prod.splits)
  then show False by simp
qed

lemma split_T_0_toISOString:
  assumes "\<bar>t\<bar> \<le> 8640000000000000"
  shows "map_option split_T_0 (toISOString t) = Some (date_string t)"
proof -
  have "\<And>x. x \<in> set (date_string t) \<Longrightarrow> x \<noteq> CHR ''T''"
    using date_string_no_T by blast
  then have "takeWhile (\<lambda>c. c \<noteq> CHR ''T'') (date_string t @ ''T'' @ time_string t @ ''Z'')
        = date_string t"
    by simp
  then show ?thesis
    using assms by (simp add: toISOString_def split_T_0_def)
qed

lemma date_string_has_dash: "CHR ''-'' \<in> set (date_string t)"
  by (cases "civil_from_days (t div msPerDay)") (simp add: date_string_def)

lemma inherited_no_dash: "inherited k \<Longrightarrow> CHR ''-'' \<notin> set k"
  by (auto simp: inherited_def object_prototype_keys_def)

lemma date_string_not_inherited: "\<not> inherited (date_string t)"
  using inherited_no_dash date_string_has_dash by blast


section \<open>Numbers: exponent and rounding\<close>

lemma pow2_powi: "pow2 e = 2 powi e"
  by (simp add: pow2_def power_int_def inverse_eq_divide power_one_over)

lemma pow2_pos [simp]: "0 < pow2 e"
  by (simp add: pow2_powi)

lemma pow2_nonneg [simp]: "0 \<le> pow2 e"
  by (simp add: less_imp_le)

lemma pow2_add: "pow2 (a + b) = pow2 a * pow2 b"
  by (simp add: pow2_powi power_int_add)

lemma pow2_diff: "pow2 (a - b) = pow2 a / pow2 b"
  by (simp add: pow2_powi power_int_diff)

lemma pow2_nat: "pow2 (int n) = 2 ^ n"
  by (simp add: pow2_powi)

lemma pow2_numeral [simp]: "pow2 (numeral k) = 2 ^ numeral k" "pow2 0 = 1" "pow2 1 = 2"
  by (simp_all add: pow2_powi)

lemma pow2_mono: "a \<le> b \<Longrightarrow> pow2 a \<le> pow2 b"
  by (simp add: pow2_powi power_int_increasing)

lemma pow2_strict_mono: "a < b \<Longrightarrow> pow2 a < pow2 b"
  by (simp add: pow2_powi power_int_strict_increasing)

lemma pow2_less_cancel: "pow2 a < pow2 b \<Longrightarrow> a < b"
  using pow2_mono[of b a] by (cases "a < b") auto

lemma pow2_le_cancel: "pow2 a \<le> pow2 b \<Longrightarrow> a \<le> b"
  using pow2_strict_mono[of b a] by (cases "a \<le> b") auto

lemma bitlen_rat_bounds:
  assumes "0 < (p::int)"
  shows "pow2 (bitlen p - 1) \<le> of_int p" "of_int p < pow2 (bitlen p)"
proof -
  from assms have b: "1 \<le> bitlen p"
    by (simp add: bitlen_alt_def)
  have "2 ^ nat (bitlen p - 1) \<le> p" "p < 2 ^ nat (bitlen p)"
    using bitlen_bounds[OF assms] by auto
  then have "(of_int (2 ^ nat (bitlen p - 1)) :: rat) \<le> of_int p"
    "(of_int p :: rat) < of_int (2 ^ nat (bitlen p))"
    by (simp_all only: of_int_le_iff of_int_less_iff)
  then show "pow2 (bitlen p - 1) \<le> of_int p" "of_int p < pow2 (bitlen p)"
    using b by (simp_all add: pow2_def)
qed

lemma ilog2_bounds:
  assumes "0 < x"
  shows "pow2 (ilog2 x) \<le> x" and "x < pow2 (ilog2 x + 1)"
proof -
  obtain p q where pq: "quotient_of x = (p, q)" by (cases "quotient_of x")
  then have q: "0 < q" by (rule quotient_of_denom_pos)
  have x: "x = of_int p / of_int q" using pq by (rule quotient_of_div)
  have p: "0 < p"
    using assms q by (simp add: x zero_less_divide_iff)
  define d where "d = bitlen p - bitlen q"
  have up: "x < pow2 (d + 1)"
  proof -
    have "of_int p / of_int q < pow2 (bitlen p) / pow2 (bitlen q - 1)"
      using bitlen_rat_bounds[OF p] bitlen_rat_bounds[OF q] p q
      by (intro frac_less) simp_all
    also have "\<dots> = pow2 (d + 1)"
      by (simp add: d_def flip: pow2_diff) (simp add: algebra_simps)
    finally show ?thesis by (simp add: x)
  qed
  have lo: "pow2 (d - 1) \<le> x"
  proof -
    have "pow2 (bitlen p - 1) / pow2 (bitlen q) < of_int p / of_int q"
      using bitlen_rat_bounds[OF p] bitlen_rat_bounds[OF q] p q
      by (intro frac_less2) simp_all
    moreover have "pow2 (bitlen p - 1) / pow2 (bitlen q) = pow2 (d - 1)"
      by (simp add: d_def flip: pow2_diff) (simp add: algebra_simps)
    ultimately show ?thesis by (simp add: x)
  qed
  have e: "ilog2 x = (if pow2 d \<le> x then d else d - 1)"
    by (simp add: ilog2_def pq d_def Let_def)
  show "pow2 (ilog2 x) \<le> x" using lo by (simp add: e)
  show "x < pow2 (ilog2 x + 1)" using up by (auto simp: e not_le)
qed

lemma ilog2_less: "0 < x \<Longrightarrow> x < pow2 k \<Longrightarrow> ilog2 x < k"
  using ilog2_bounds(1)[of x] pow2_less_cancel[of "ilog2 x" k] by simp

lemma ilog2_ge: "0 < x \<Longrightarrow> pow2 k \<le> x \<Longrightarrow> k \<le> ilog2 x"
  using ilog2_bounds(2)[of x] pow2_less_cancel[of k "ilog2 x + 1"] by simp

lemma round_half_even_error: "\<bar>of_int (round_half_even z) - z\<bar> \<le> 1 / 2"
proof -
  have "of_int \<lfloor>z\<rfloor> \<le> z" "z < of_int \<lfloor>z\<rfloor> + 1" by linarith+
  then show ?thesis
    by (auto simp: round_half_even_def Let_def abs_le_iff)
qed

lemma round_half_even_near:
  assumes "\<bar>z - of_int m\<bar> < 1 / 2"
  shows "round_half_even z = m"
proof -
  have "\<bar>of_int (round_half_even z) - (of_int m :: rat)\<bar> < 1"
    using round_half_even_error[of z] assms by linarith
  then have "\<bar>(of_int (round_half_even z - m) :: rat)\<bar> < 1" by simp
  then have "\<bar>round_half_even z - m\<bar> < 1"
    by (metis of_int_abs of_int_less_1_iff)
  then show ?thesis by simp
qed


section \<open>Numbers: the error of one operation, and rounding to two decimals\<close>

text \<open>In the normal range, below overflow, \<open>fl\<close> returns the multiple of the unit in the
  last place nearest to its argument.\<close>

lemma fl_normal:
  assumes lo: "pow2 (- 1022) \<le> \<bar>x\<bar>" and hi: "\<bar>x\<bar> < pow2 1023"
  defines "u \<equiv> pow2 (ilog2 \<bar>x\<bar> - 52)"
  shows "fl x = Num (of_int (round_half_even (x / u)) * u)"
proof -
  have pos: "0 < \<bar>x\<bar>" using lo pow2_pos[of "- 1022"] by linarith
  then have nz: "x \<noteq> 0" by simp
  have e1: "- 1022 \<le> ilog2 \<bar>x\<bar>" using ilog2_ge[OF pos lo] .
  have e2: "ilog2 \<bar>x\<bar> < 1023" using ilog2_less[OF pos hi] .
  have "max (ilog2 \<bar>x\<bar>) (- 1022) = ilog2 \<bar>x\<bar>" using e1 by simp
  then show ?thesis
    using nz e2 by (simp add: fl_def Let_def u_def)
qed

lemma ulp_bound:
  assumes "0 < \<bar>x\<bar>"
  shows "pow2 (ilog2 \<bar>x\<bar> - 52) \<le> \<bar>x\<bar> / 2 ^ 52"
proof -
  have "pow2 (ilog2 \<bar>x\<bar> - 52) = pow2 (ilog2 \<bar>x\<bar>) / 2 ^ 52"
    by (simp add: pow2_diff)
  also have "\<dots> \<le> \<bar>x\<bar> / 2 ^ 52"
    using ilog2_bounds(1)[OF assms] by (simp add: divide_right_mono)
  finally show ?thesis .
qed

lemma fl_error:
  assumes lo: "pow2 (- 1022) \<le> \<bar>x\<bar>" and hi: "\<bar>x\<bar> < pow2 1023"
  shows "\<exists>r. fl x = Num r \<and> \<bar>r - x\<bar> \<le> \<bar>x\<bar> / 2 ^ 53"
proof -
  define u where "u = pow2 (ilog2 \<bar>x\<bar> - 52)"
  define m where "m = round_half_even (x / u)"
  have pos: "0 < \<bar>x\<bar>" using lo pow2_pos[of "- 1022"] by linarith
  have u: "0 < u" by (simp add: u_def)
  have fl: "fl x = Num (of_int m * u)"
    using fl_normal[OF lo hi] by (simp add: u_def m_def)
  have "\<bar>of_int m - x / u\<bar> \<le> 1 / 2"
    unfolding m_def by (rule round_half_even_error)
  then have "\<bar>of_int m - x / u\<bar> * u \<le> 1 / 2 * u"
    using u by (intro mult_right_mono) simp_all
  moreover have "\<bar>of_int m - x / u\<bar> * u = \<bar>of_int m * u - x\<bar>"
  proof -
    have "of_int m * u - x = (of_int m - x / u) * u"
      using u by (simp add: field_simps)
    then show ?thesis using u by (simp add: abs_mult)
  qed
  ultimately have "\<bar>of_int m * u - x\<bar> \<le> u / 2" by simp
  also have "u / 2 \<le> (\<bar>x\<bar> / 2 ^ 52) / 2"
    using ulp_bound[OF pos] by (simp add: u_def)
  also have "\<dots> = \<bar>x\<bar> / 2 ^ 53" by simp
  finally show ?thesis using fl by blast
qed

lemma fl_exact_near:
  assumes lo: "pow2 (- 1022) \<le> \<bar>x\<bar>" and hi: "\<bar>x\<bar> < pow2 1023"
    and near: "\<bar>x / pow2 (ilog2 \<bar>x\<bar> - 52) - of_int m\<bar> < 1 / 2"
  shows "fl x = Num (of_int m * pow2 (ilog2 \<bar>x\<bar> - 52))"
  using fl_normal[OF lo hi] round_half_even_near[OF near] by simp

lemma fl_zero [simp]: "fl 0 = Num 0"
  by (simp add: fl_def)

text \<open>Integers below \<open>2^53\<close> in magnitude are Numbers.\<close>

lemma fl_int:
  assumes "\<bar>i\<bar> < 2 ^ 53"
  shows "fl (of_int i) = Num (of_int i)"
proof (cases "i = 0")
  case True
  then show ?thesis by simp
next
  case False
  define x :: rat where "x = of_int i"
  define e where "e = ilog2 \<bar>x\<bar>"
  have ax: "\<bar>x\<bar> = of_int \<bar>i\<bar>" by (simp add: x_def)
  have one: "1 \<le> \<bar>x\<bar>" using False by (simp add: ax flip: of_int_abs)
  have hi53: "\<bar>x\<bar> < pow2 53"
  proof -
    have "(of_int \<bar>i\<bar> :: rat) < of_int (2 ^ 53)" using assms by (simp only: of_int_less_iff)
    then show ?thesis by (simp add: ax)
  qed
  have pos: "0 < \<bar>x\<bar>" using one by linarith
  have lo: "pow2 (- 1022) \<le> \<bar>x\<bar>"
  proof -
    have "pow2 (- 1022) \<le> pow2 0" by (rule pow2_mono) simp
    then show ?thesis using one by simp
  qed
  have hi: "\<bar>x\<bar> < pow2 1023"
  proof -
    have "pow2 53 \<le> pow2 1023" by (rule pow2_mono) simp
    then show ?thesis using hi53 by linarith
  qed
  have e0: "0 \<le> e" unfolding e_def using ilog2_ge[OF pos, of 0] one by simp
  have e52: "e \<le> 52" unfolding e_def using ilog2_less[OF pos hi53] by simp
  define k where "k = nat (52 - e)"
  have u: "pow2 (e - 52) = 1 / 2 ^ k"
    using e52 by (simp add: pow2_def k_def)
  have "x / pow2 (e - 52) = of_int (i * 2 ^ k)"
    by (simp add: u x_def)
  then have "\<bar>x / pow2 (ilog2 \<bar>x\<bar> - 52) - of_int (i * 2 ^ k)\<bar> < 1 / 2"
    by (simp add: e_def)
  from fl_exact_near[OF lo hi this]
  have "fl x = Num (of_int (i * 2 ^ k) * pow2 (e - 52))" by (simp add: e_def)
  also have "of_int (i * 2 ^ k) * pow2 (e - 52) = (of_int i :: rat)"
    by (simp add: u)
  finally show ?thesis by (simp add: x_def)
qed

lemma fl_nat: "n < 2 ^ 53 \<Longrightarrow> fl (of_nat n) = Num (of_nat n)"
  using fl_int[of "int n"] by simp

text \<open>
  Rounding to two decimals. When \<open>y\<close> is closer to the fraction \<open>a / b\<close> than
  \<open>1 / (200 b)\<close>, the hundredth nearest to \<open>y\<close> (the larger on a tie) is a hundredth
  nearest to \<open>a / b\<close>.
\<close>

lemma hundredths_nearest:
  fixes a b :: int and y :: rat
  assumes b: "0 < b" and close: "\<bar>y - of_int a / of_int b\<bar> * (200 * of_int b) < 1"
  shows "\<bar>(of_int \<lfloor>y * 100 + 1 / 2\<rfloor> :: rat) / 100 - of_int a / of_int b\<bar> \<le> 1 / 200"
proof -
  define N where "N = \<lfloor>y * 100 + 1 / 2\<rfloor>"
  define d where "d = y - of_int a / of_int b"
  have bpos: "(0::rat) < of_int b" using b by simp
  have y: "y = of_int a / of_int b + d" by (simp add: d_def)
  have dd: "\<bar>d\<bar> * (200 * of_int b) < 1" using close by (simp add: d_def)
  then have d1: "d * (200 * of_int b) < 1" and d2: "- 1 < d * (200 * of_int b)"
  proof -
    have "\<bar>d * (200 * of_int b)\<bar> < 1"
      using dd bpos by (simp add: abs_mult)
    then show "d * (200 * of_int b) < 1" "- 1 < d * (200 * of_int b)" by linarith+
  qed
  have yb: "y * (200 * of_int b) = 200 * of_int a + d * (200 * of_int b)"
    using bpos by (simp add: y field_simps)
  have N1: "of_int N \<le> y * 100 + 1 / 2" and N2: "y * 100 + 1 / 2 < of_int N + 1"
    unfolding N_def by linarith+
  have "of_int N * (2 * of_int b) \<le> (y * 100 + 1 / 2) * (2 * of_int b)"
    using N1 bpos by (intro mult_right_mono) simp_all
  also have "\<dots> = y * (200 * of_int b) + of_int b" by (simp add: algebra_simps)
  also have "\<dots> < 200 * of_int a + of_int b + 1" using yb d1 by linarith
  finally have "(of_int (N * (2 * b)) :: rat) < of_int (200 * a + b + 1)" by simp
  then have up: "N * (2 * b) \<le> 200 * a + b" by (simp only: of_int_less_iff)
  have "200 * of_int a + of_int b - 1 < y * (200 * of_int b) + of_int b"
    using yb d2 by linarith
  also have "\<dots> = (y * 100 + 1 / 2) * (2 * of_int b)" by (simp add: algebra_simps)
  also have "\<dots> < (of_int N + 1) * (2 * of_int b)"
    using N2 bpos by (intro mult_strict_right_mono) simp_all
  finally have "(of_int (200 * a + b - 1) :: rat) < of_int ((N + 1) * (2 * b))" by simp
  then have "200 * a + b - 1 < (N + 1) * (2 * b)" by (simp only: of_int_less_iff)
  then have lo: "200 * a - b \<le> N * (2 * b)" by (simp add: algebra_simps)
  have "\<bar>N * (2 * b) - 200 * a\<bar> \<le> b" using up lo by linarith
  then have "(of_int \<bar>N * (2 * b) - 200 * a\<bar> :: rat) \<le> of_int b" by (simp only: of_int_le_iff)
  then have "\<bar>of_int N * (2 * of_int b) - 200 * of_int a\<bar> \<le> (of_int b :: rat)" by simp
  moreover have "\<bar>(of_int N :: rat) / 100 - of_int a / of_int b\<bar>
      = \<bar>of_int N * (2 * of_int b) - 200 * of_int a\<bar> / (200 * of_int b)"
  proof -
    have "(of_int N :: rat) / 100 - of_int a / of_int b
        = (of_int N * (2 * of_int b) - 200 * of_int a) / (200 * of_int b)"
      using bpos by (simp add: field_simps)
    then show ?thesis using bpos by (simp add: abs_divide)
  qed
  ultimately have "\<bar>(of_int N :: rat) / 100 - of_int a / of_int b\<bar> \<le> of_int b / (200 * of_int b)"
    using bpos by (simp add: divide_right_mono)
  then show ?thesis using bpos by (simp add: N_def)
qed


section \<open>Numbers: a quotient of integers printed with two decimals\<close>

lemma pow2_m1022_le: "1 / 2 ^ 53 \<le> x \<Longrightarrow> pow2 (- 1022) \<le> x"
proof -
  assume a: "1 / 2 ^ 53 \<le> x"
  have "pow2 (- 1022) \<le> pow2 (- 53)" by (rule pow2_mono) simp
  also have "pow2 (- 53) = 1 / 2 ^ 53" by (simp add: pow2_def)
  finally show ?thesis using a by linarith
qed

lemma less_pow2_1023: "x < 2 ^ 60 \<Longrightarrow> x < pow2 1023"
proof -
  assume a: "x < 2 ^ 60"
  have "pow2 60 \<le> pow2 1023" by (rule pow2_mono) simp
  then show ?thesis using a by simp
qed



section \<open>Challenge statistics: the three accumulators\<close>

lemma foldl_stats_step:
  "byCategory (foldl stats_step st cs) = foldl byCategory_step (byCategory st) cs
   \<and> byDifficulty (foldl stats_step st cs) = foldl byDifficulty_step (byDifficulty st) cs
   \<and> st_solvedChallenges (foldl stats_step st cs)
       = foldl solvedChallenges_step (st_solvedChallenges st) cs"
  by (induction cs arbitrary: st) (simp_all add: stats_step_def)

lemma byCategory_stats: "byCategory (get_challenge_stats cs) = foldl byCategory_step [] cs"
  by (simp add: get_challenge_stats_def Let_def foldl_stats_step empty_stats_def)

lemma byDifficulty_stats: "byDifficulty (get_challenge_stats cs) = foldl byDifficulty_step [] cs"
  by (simp add: get_challenge_stats_def Let_def foldl_stats_step empty_stats_def)

lemma solvedChallenges_stats:
  "st_solvedChallenges (get_challenge_stats cs) = foldl solvedChallenges_step [] cs"
  by (simp add: get_challenge_stats_def Let_def foldl_stats_step empty_stats_def)

lemma foldl_category_entry:
  "foldl (\<lambda>e c. \<lparr> cat_count = Suc (cat_count e),
                   cat_solved = cat_solved e + length_or0 (solvedBy c) \<rparr>) e0 m
   = \<lparr> cat_count = cat_count e0 + length m,
       cat_solved = cat_solved e0 + sum_list (map (\<lambda>c. length_or0 (solvedBy c)) m) \<rparr>"
  by (induction m arbitrary: e0) simp_all

lemma foldl_difficulty_entry:
  "foldl (\<lambda>e c. \<lparr> diff_count = Suc (diff_count e), avgPoints = avgPoints e + c_points c \<rparr>) e0 m
   = \<lparr> diff_count = diff_count e0 + length m,
       avgPoints = avgPoints e0 + sum_list (map c_points m) \<rparr>"
  by (induction m arbitrary: e0) simp_all

lemma filter_empty_iff_image: "(filter (\<lambda>c. key c = k) cs = []) = (k \<notin> key ` set cs)"
  by (auto simp: filter_empty_conv)

lemma byCategory_lookup:
  "map_of (byCategory (get_challenge_stats cs)) k =
     (if inherited k \<or> k \<notin> category ` set cs then None
      else Some \<lparr> cat_count = length (filter (\<lambda>c. category c = k) cs),
                  cat_solved = sum_list (map (\<lambda>c. length_or0 (solvedBy c))
                                  (filter (\<lambda>c. category c = k) cs)) \<rparr>)"
  unfolding byCategory_stats byCategory_step_def
  by (simp add: map_of_foldl_upsert foldl_category_entry filter_empty_iff_image)

lemma byDifficulty_lookup:
  "map_of (byDifficulty (get_challenge_stats cs)) k =
     (if inherited k \<or> k \<notin> difficulty ` set cs then None
      else Some \<lparr> diff_count = length (filter (\<lambda>c. difficulty c = k) cs),
                  avgPoints = sum_list (map c_points (filter (\<lambda>c. difficulty c = k) cs)) \<rparr>)"
  unfolding byDifficulty_stats byDifficulty_step_def
  by (simp add: map_of_foldl_upsert foldl_difficulty_entry filter_empty_iff_image)

lemma byCategory_distinct: "distinct (map fst (byCategory (get_challenge_stats cs)))"
  unfolding byCategory_stats byCategory_step_def by (rule distinct_foldl_upsert) simp


lemma byCategory_count_sum:
  "sum_list (map (\<lambda>p. cat_count (snd p)) (byCategory (get_challenge_stats cs)))
     = length (filter (\<lambda>c. \<not> inherited (category c)) cs)"
  using sum_list_foldl_upsert
    [where g = cat_count and z = "\<lparr> cat_count = 0, cat_solved = 0 \<rparr>"
       and f = "\<lambda>c e. \<lparr> cat_count = cat_count e + 1,
                         cat_solved = cat_solved e + length_or0 (solvedBy c) \<rparr>"
       and w = "\<lambda>c. 1" and key = category and obj = "[]" and cs = cs]
  by (simp add: byCategory_stats byCategory_step_def[abs_def] sum_list_triv)

lemma byCategory_solved_sum:
  "sum_list (map (\<lambda>p. cat_solved (snd p)) (byCategory (get_challenge_stats cs)))
     = sum_list (map (\<lambda>c. length_or0 (solvedBy c)) (filter (\<lambda>c. \<not> inherited (category c)) cs))"
  using sum_list_foldl_upsert
    [where g = cat_solved and z = "\<lparr> cat_count = 0, cat_solved = 0 \<rparr>"
       and f = "\<lambda>c e. \<lparr> cat_count = cat_count e + 1,
                         cat_solved = cat_solved e + length_or0 (solvedBy c) \<rparr>"
       and w = "\<lambda>c. length_or0 (solvedBy c)" and key = category and obj = "[]" and cs = cs]
  by (simp add: byCategory_stats byCategory_step_def[abs_def])

lemma foldl_solvedChallenges_step:
  "foldl solvedChallenges_step acc cs
     = acc @ map (\<lambda>c. solved_projection c (case solvedBy c of None \<Rightarrow> [] | Some us \<Rightarrow> us))
               (filter (\<lambda>c. (case solvedBy c of None \<Rightarrow> [] | Some us \<Rightarrow> us) \<noteq> []) cs)"
  by (induction cs arbitrary: acc) (auto simp: solvedChallenges_step_def split: option.splits)


section \<open>Challenge statistics: most and least solved\<close>








section \<open>Leaderboard\<close>

lemma topUsers_sort_key: "topUsers users = take 10 (sort_key (\<lambda>u. - points u) users)"
  by (simp add: topUsers_def sort_desc_sort_key)

lemma length_topUsersData [simp]: "length (topUsersData found) = length found"
  by (simp add: topUsersData_def)

lemma nth_topUsersData:
  "i < length found \<Longrightarrow>
   topUsersData found ! i =
     \<lparr> rank = i + 1, l_username = username (found ! i), l_points = points (found ! i),
       l_challengesSolved = length_or0 (solvedChallenges (found ! i)) \<rparr>"
  by (simp add: topUsersData_def nth_enumerate_eq)

text \<open>
  Claim C6. The leaderboard has at most ten entries (ten, or all the users when there are
  fewer), the entry at position \<open>i\<close> (from 0) has rank \<open>i + 1\<close>, and the points never
  increase along the list. The entries are, in order, the first ten users of the
  collection stably sorted by points descending: users with equal points keep the order
  of the collection, and a collection that is already sorted is left in its order.
\<close>

theorem leaderboard_ranked:
  fixes users :: "user list"
  defines "out \<equiv> get_leaderboard_stats users"
  defines "s \<equiv> sort_key (\<lambda>u. - points u) users"
  shows "length out \<le> 10 \<and> length out = min 10 (length users)
    \<and> (\<forall>i < length out. rank (out ! i) = i + 1)
    \<and> (\<forall>i j. i \<le> j \<and> j < length out \<longrightarrow> l_points (out ! j) \<le> l_points (out ! i))
    \<and> (\<forall>i < length out. l_username (out ! i) = username (s ! i)
                         \<and> l_points (out ! i) = points (s ! i)
                         \<and> l_challengesSolved (out ! i) = length_or0 (solvedChallenges (s ! i)))
    \<and> mset s = mset users
    \<and> sorted (map (\<lambda>u. - points u) s)
    \<and> (\<forall>p. filter (\<lambda>u. points u = p) s = filter (\<lambda>u. points u = p) users)
    \<and> (sorted (map (\<lambda>u. - points u) users) \<longrightarrow> s = users)"
proof -
  have out: "out = topUsersData (take 10 s)"
    by (simp add: out_def s_def get_leaderboard_stats_def topUsers_sort_key)
  have len: "length out = min 10 (length users)"
    by (simp add: out s_def min.commute)
  have nth: "out ! i = \<lparr> rank = i + 1, l_username = username (s ! i), l_points = points (s ! i),
       l_challengesSolved = length_or0 (solvedChallenges (s ! i)) \<rparr>" if "i < length out" for i
    using that by (simp add: out nth_topUsersData)
  have ssorted: "sorted (map (\<lambda>u. - points u) s)"
    by (simp add: s_def)
  have mono: "l_points (out ! j) \<le> l_points (out ! i)" if "i \<le> j" "j < length out" for i j
  proof -
    have j: "j < length s" using that(2) by (simp add: out)
    have "map (\<lambda>u. - points u) s ! i \<le> map (\<lambda>u. - points u) s ! j"
      using ssorted that(1) j by (intro sorted_nth_mono) simp_all
    then have "points (s ! j) \<le> points (s ! i)"
      using j that(1) by simp
    then show ?thesis using that by (simp add: nth)
  qed
  have stable: "filter (\<lambda>u. points u = p) s = filter (\<lambda>u. points u = p) users" for p
    using sort_key_stable[of "\<lambda>u. - points u" "- p" users] by (simp add: s_def)
  have same: "sorted (map (\<lambda>u. - points u) users) \<longrightarrow> s = users"
    by (simp add: s_def sort_key_id_if_sorted)
  have perm: "mset s = mset users" by (simp add: s_def)
  from len nth mono stable same perm ssorted show ?thesis by simp
qed

theorem leaderboard_ranked_witness:
  "map rank (get_leaderboard_stats three_users) = [1, 2, 3]
   \<and> map l_points (get_leaderboard_stats three_users) = [200, 100, 50]
   \<and> map l_username (get_leaderboard_stats three_users) = [''u200'', ''u100'', ''u50'']
   \<and> map l_challengesSolved (get_leaderboard_stats three_users) = [5, 5, 0]"
  using leaderboard_ranked [of three_users]
  by (simp add: three_users_def alice_def get_leaderboard_stats_def topUsers_sort_key
      topUsersData_def length_or0_def)


section \<open>Traffic: the daily breakdown\<close>

lemma toISOString_valid:
  assumes "\<bar>t\<bar> \<le> 8640000000000000"
  shows "\<exists>s. toISOString t = Some s \<and> split_T_0 s = date_string t"
  using split_T_0_toISOString[OF assms] by (cases "toISOString t") simp_all

lemma usersPerDay_loop_valid:
  assumes "\<forall>u \<in> set us. \<bar>createdAt u\<bar> \<le> 8640000000000000"
  shows "usersPerDay_loop obj us
         = Inr (foldl usersPerDay_step obj (map (\<lambda>u. date_string (createdAt u)) us))"
  using assms
proof (induction us arbitrary: obj)
  case Nil
  show ?case by simp
next
  case (Cons u us)
  from Cons.prems obtain s where s: "toISOString (createdAt u) = Some s"
      "split_T_0 s = date_string (createdAt u)"
    using toISOString_valid[of "createdAt u"] by auto
  from Cons.prems have "\<forall>u \<in> set us. \<bar>createdAt u\<bar> \<le> 8640000000000000" by simp
  then show ?case by (simp add: s Cons.IH)
qed

text \<open>A time value outside the range of a Date ends the request with the server error.\<close>

lemma usersPerDay_loop_invalid:
  assumes "\<exists>u \<in> set us. \<not> \<bar>createdAt u\<bar> \<le> 8640000000000000"
  shows "usersPerDay_loop obj us = Inl ServerError"
  using assms
proof (induction us arbitrary: obj)
  case Nil
  then show ?case by simp
next
  case (Cons u us)
  show ?case
  proof (cases "\<bar>createdAt u\<bar> \<le> 8640000000000000")
    case True
    with Cons.prems have "\<exists>u \<in> set us. \<not> \<bar>createdAt u\<bar> \<le> 8640000000000000" by auto
    then show ?thesis by (simp add: Cons.IH split: option.splits)
  next
    case False
    then show ?thesis by (simp add: toISOString_def)
  qed
qed

lemma map_of_usersPerDay_step:
  "map_of (usersPerDay_step obj d) k =
     (if k = d then Some ((case map_of obj d of None \<Rightarrow> 0 | Some n \<Rightarrow> n) + 1) else map_of obj k)"
  by (simp add: usersPerDay_step_def update_conv')

lemma map_of_foldl_usersPerDay_step:
  "map_of (foldl usersPerDay_step obj days) k =
     (if k \<in> set days
      then Some ((case map_of obj k of None \<Rightarrow> 0 | Some n \<Rightarrow> n) + length (filter (\<lambda>d. d = k) days))
      else map_of obj k)"
  by (induction days arbitrary: obj)
    (auto simp: map_of_usersPerDay_step filter_empty_conv split: option.splits)

lemma distinct_foldl_usersPerDay_step:
  "distinct (map fst obj) \<Longrightarrow> distinct (map fst (foldl usersPerDay_step obj days))"
  by (induction days arbitrary: obj) (simp_all add: usersPerDay_step_def distinct_update)

lemma sum_list_usersPerDay_step:
  "sum_list (map snd (usersPerDay_step obj d)) = sum_list (map snd obj) + 1"
  using sum_list_update[of "\<lambda>n. n" d "(case map_of obj d of None \<Rightarrow> 0 | Some n \<Rightarrow> n) + 1" obj]
  by (auto simp: usersPerDay_step_def split: option.splits)

lemma sum_list_foldl_usersPerDay_step:
  "sum_list (map snd (foldl usersPerDay_step obj days)) = sum_list (map snd obj) + length days"
  by (induction days arbitrary: obj) (simp_all add: sum_list_usersPerDay_step)

text \<open>
  Claim C8. With every \<open>createdAt\<close> a time value in the range of a Date, the handler
  answers with a \<open>dailyBreakdown\<close> whose keys are the date parts (the characters
  before the \<open>T\<close>, none of them a \<open>T\<close>) of the \<open>toISOString\<close> of the users created in
  the last 30 days, each key once. The value under a key is the number of those users
  whose UTC day it is, never 0; a day on which none of them was created is not a key;
  and the values add up to the number of those users, which is also \<open>last30Days\<close>.
\<close>

theorem dailyBreakdown_counts_signups_per_day:
  fixes now midnight :: int and all_users :: "user list"
  defines "recent \<equiv> filter (\<lambda>u. now - days30 \<le> createdAt u) all_users"
  defines "day \<equiv> \<lambda>u. date_string (createdAt u)"
  assumes valid: "\<forall>u \<in> set all_users. \<bar>createdAt u\<bar> \<le> 8640000000000000"
  shows "\<exists>t. get_traffic now midnight all_users = Inr t
    \<and> last30Days t = length recent
    \<and> distinct (map fst (dailyBreakdown t))
    \<and> (\<forall>k. map_of (dailyBreakdown t) k =
          (if k \<in> day ` set recent then Some (length (filter (\<lambda>u. day u = k) recent)) else None))
    \<and> sum_list (map snd (dailyBreakdown t)) = length recent
    \<and> (\<forall>p \<in> set (dailyBreakdown t). 0 < snd p
          \<and> CHR ''T'' \<notin> set (fst p)
          \<and> (\<exists>u \<in> set recent.
                toISOString (createdAt u) = Some (fst p @ ''T'' @ time_string (createdAt u) @ ''Z'')))"
proof -
  define db where "db = foldl usersPerDay_step [] (map day recent)"
  have "\<forall>u \<in> set recent. \<bar>createdAt u\<bar> \<le> 8640000000000000"
    using valid by (simp add: recent_def)
  then have loop: "usersPerDay_loop [] recent = Inr db"
    unfolding db_def day_def by (rule usersPerDay_loop_valid)
  define t where "t = \<lparr> last30Days = countDocuments (\<lambda>u. now - days30 \<le> createdAt u) all_users,
      last7Days = countDocuments (\<lambda>u. now - days7 \<le> createdAt u) all_users,
      today = countDocuments (\<lambda>u. midnight \<le> createdAt u) all_users,
      dailyBreakdown = db \<rparr>"
  have res: "get_traffic now midnight all_users = Inr t"
    using loop by (simp add: get_traffic_def Let_def t_def recent_def)
  have l30: "last30Days t = length recent"
    by (simp add: t_def countDocuments_def recent_def)
  have dist: "distinct (map fst (dailyBreakdown t))"
    by (simp add: t_def db_def distinct_foldl_usersPerDay_step)
  have look: "map_of (dailyBreakdown t) k =
          (if k \<in> day ` set recent then Some (length (filter (\<lambda>u. day u = k) recent)) else None)"
    for k
    by (simp add: t_def db_def map_of_foldl_usersPerDay_step filter_map o_def)
  have total: "sum_list (map snd (dailyBreakdown t)) = length recent"
    by (simp add: t_def db_def sum_list_foldl_usersPerDay_step)
  have each: "0 < snd p \<and> CHR ''T'' \<notin> set (fst p)
          \<and> (\<exists>u \<in> set recent.
                toISOString (createdAt u) = Some (fst p @ ''T'' @ time_string (createdAt u) @ ''Z''))"
    if p: "p \<in> set (dailyBreakdown t)" for p
  proof -
    have "map_of (dailyBreakdown t) (fst p) = Some (snd p)"
      using dist p by (cases p) simp
    with look[of "fst p"] have in_days: "fst p \<in> day ` set recent"
      and n: "snd p = length (filter (\<lambda>u. day u = fst p) recent)"
      by (auto split: if_splits)
    from in_days obtain u where u: "u \<in> set recent" "fst p = day u" by auto
    then have "0 < length (filter (\<lambda>u. day u = fst p) recent)"
      by (auto simp: filter_empty_conv)
    moreover have "CHR ''T'' \<notin> set (fst p)"
      using u by (simp add: day_def date_string_no_T)
    moreover have "\<bar>createdAt u\<bar> \<le> 8640000000000000"
      using u(1) valid by (simp add: recent_def)
    then have "toISOString (createdAt u) = Some (fst p @ ''T'' @ time_string (createdAt u) @ ''Z'')"
      using u(2) by (simp add: toISOString_def day_def)
    ultimately show ?thesis using n u(1) by auto
  qed
  from res l30 dist look total each show ?thesis by blast
qed

lemma sample_dates:
  "date_string 1700000000000 = ''2023-11-14''"
  "date_string 1699999000000 = ''2023-11-14''"
  "date_string 1699000000000 = ''2023-11-03''"
  by code_simp+

theorem dailyBreakdown_counts_signups_per_day_witness:
  "get_traffic sample_now sample_now signups
     = Inr \<lparr> last30Days = 3, last7Days = 2, today = 1,
             dailyBreakdown = [(''2023-11-14'', 2), (''2023-11-03'', 1)] \<rparr>
   \<and> sum_list (map snd [(''2023-11-14'', 2), (''2023-11-03'', 1 :: nat)]) = 3"
  using dailyBreakdown_counts_signups_per_day [of signups sample_now sample_now]
  by (simp add: get_traffic_def Let_def countDocuments_def usersPerDay_loop_valid
      usersPerDay_step_def signups_def alice_def sample_now_def days30_def days7_def
      sample_dates)


section \<open>Overview: the average per user\<close>





text \<open>Without the guard, no users would give the string \<open>NaN\<close>.\<close>

lemma unguarded_average_is_NaN: "toFixed2 (js_div (Num 0) (Num 0)) = Literal NaN"
  by simp




text \<open>A tie: 201 points over 200 users is 1.005, printed as 1.00.\<close>

lemma tie_average: "toFixed2 (fl (201 / 200)) = Fixed False 100"
  by code_simp



section \<open>Submissions: the estimated failures\<close>

lemma three_tenths: "fl (3 / 10) = Num (5404319552844595 / 18014398509481984)"
  by code_simp

lemma three_tenths_gap:
  "3 / 10 - (5404319552844595 / 18014398509481984 :: rat) = 1 / (5 * 2 ^ 54)"
  by simp

lemma floor_in_unit: "of_int q < y \<Longrightarrow> y < of_int q + 1 \<Longrightarrow> \<lfloor>y :: rat\<rfloor> = q"
  by linarith

lemma estimatedFailed_floor:
  assumes n: "n < 2 ^ 32"
  shows "estimatedFailed n = Num (of_int ((3 * int n) div 10))"
proof (cases "n = 0")
  case True
  then show ?thesis by (simp add: estimatedFailed_def three_tenths)
next
  case False
  define c :: rat where "c = 5404319552844595 / 18014398509481984"
  define p :: rat where "p = of_nat n * c"
  define q where "q = (3 * int n) div 10"
  define r where "r = (3 * int n) mod 10"
  have n1: "(1::rat) \<le> of_nat n" using False by simp
  have n32: "(of_nat n :: rat) < 2 ^ 32"
  proof -
    have "(of_nat n :: rat) < of_nat (2 ^ 32)" using n by (simp only: of_nat_less_iff)
    then show ?thesis by simp
  qed
  have qr: "3 * int n = 10 * q + r" and r: "0 \<le> r" "r \<le> 9"
    by (simp_all add: q_def r_def) 
  have qr': "3 * (of_nat n :: rat) = 10 * of_int q + of_int r"
  proof -
    have "(of_int (3 * int n) :: rat) = of_int (10 * q + r)" by (simp only: qr)
    then show ?thesis by simp
  qed
  have gap: "3 / 10 - c = 1 / (5 * 2 ^ 54)" unfolding c_def by simp
  have pq: "p = of_int q + of_int r / 10 - of_nat n / (5 * 2 ^ 54)"
  proof -
    have "p = of_nat n * (3 / 10) - of_nat n * (3 / 10 - c)"
      by (simp add: p_def algebra_simps)
    also have "\<dots> = (3 * of_nat n) / 10 - of_nat n / (5 * 2 ^ 54)"
      by (simp add: gap)
    also have "(3 * of_nat n :: rat) / 10 = of_int q + of_int r / 10"
      by (simp add: qr')
    finally show ?thesis .
  qed
  have c_lo: "1 / 4 \<le> c" and c_hi: "c \<le> 3 / 10" by (simp_all add: c_def)
  have p_lo: "1 / 4 \<le> p"
  proof -
    have "1 / 4 * 1 \<le> c * of_nat n"
      using c_lo n1 by (intro mult_mono) simp_all
    then show ?thesis by (simp add: p_def mult.commute)
  qed
  have p_hi: "p < 2 ^ 32"
  proof -
    have "of_nat n * c \<le> of_nat n * 1"
      using c_hi by (intro mult_left_mono) simp_all
    then show ?thesis using n32 by (simp add: p_def)
  qed
  have pabs: "\<bar>p\<bar> = p" using p_lo by simp
  have lo: "pow2 (- 1022) \<le> \<bar>p\<bar>"
    using p_lo by (intro pow2_m1022_le) (simp add: pabs)
  have hi: "\<bar>p\<bar> < pow2 1023"
    using p_hi by (intro less_pow2_1023) (simp add: pabs)
  have mul: "js_mul (Num (of_nat n)) (fl (3 / 10)) = fl p"
    by (simp add: three_tenths p_def c_def)
  have tiny: "of_nat n / (5 * 2 ^ 54) < (1 / 2 ^ 22 :: rat)"
    using n32 by (simp add: field_simps)
  have "\<exists>y. fl p = Num y \<and> \<lfloor>y\<rfloor> = q"
  proof (cases "r = 0")
    case True
    define e where "e = ilog2 \<bar>p\<bar>"
    define K where "K = nat (52 - e)"
    have ppos: "0 < \<bar>p\<bar>" using p_lo pabs by simp
    have e32: "e < 32"
      unfolding e_def using p_hi by (intro ilog2_less[OF ppos]) (simp add: pabs)
    have u: "pow2 (e - 52) = 1 / 2 ^ K"
      using e32 by (simp add: pow2_def K_def)
    have pe: "pow2 e * 2 ^ K = 2 ^ 52"
    proof -
      have "pow2 (e - 52 + 52) = pow2 (e - 52) * pow2 52" by (rule pow2_add)
      then have "pow2 e = pow2 (e - 52) * 2 ^ 52" by simp
      then show ?thesis by (simp add: u)
    qed
    have p_eq: "p = of_int q - of_nat n / (5 * 2 ^ 54)" using pq True by simp
    have "p < pow2 (e + 1)" using ilog2_bounds(2)[OF ppos] by (simp add: e_def pabs)
    then have p2: "p < 2 * pow2 e" by (simp add: pow2_add)
    have "of_nat n / 5 \<le> p"
    proof -
      have "p = of_nat n * c" by (simp add: p_def)
      moreover have "of_nat n * (1 / 5) \<le> of_nat n * c"
        using c_lo by (intro mult_left_mono) simp_all
      ultimately show ?thesis by simp
    qed
    then have ne: "of_nat n < 10 * pow2 e" using p2 by linarith
    have "of_nat n * 2 ^ K < 10 * pow2 e * 2 ^ K"
      using ne by (intro mult_strict_right_mono) simp_all
    then have nK: "of_nat n * 2 ^ K < (10 * 2 ^ 52 :: rat)" by (simp add: pe mult.assoc)
    have "p / pow2 (e - 52) - of_int (q * 2 ^ K) = - (of_nat n * 2 ^ K / (5 * 2 ^ 54))"
      by (simp add: u p_eq algebra_simps)
    moreover have "of_nat n * 2 ^ K / (5 * 2 ^ 54) < (1 / 2 :: rat)"
      using nK by (simp add: field_simps)
    moreover have "(0::rat) \<le> of_nat n * 2 ^ K / (5 * 2 ^ 54)" by simp
    ultimately have "\<bar>p / pow2 (ilog2 \<bar>p\<bar> - 52) - of_int (q * 2 ^ K)\<bar> < 1 / 2"
      by (simp add: e_def)
    from fl_exact_near[OF lo hi this]
    have "fl p = Num (of_int (q * 2 ^ K) * pow2 (e - 52))" by (simp add: e_def)
    also have "of_int (q * 2 ^ K) * pow2 (e - 52) = (of_int q :: rat)" by (simp add: u)
    finally show ?thesis by simp
  next
    case nz: False
    obtain y where y: "fl p = Num y" "\<bar>y - p\<bar> \<le> \<bar>p\<bar> / 2 ^ 53"
      using fl_error[OF lo hi] by auto
    have "\<bar>p\<bar> / 2 ^ 53 < 1 / 2 ^ 21"
      using p_hi by (simp add: pabs field_simps)
    then have yp: "\<bar>y - p\<bar> < 1 / 2 ^ 21" using y(2) by linarith
    have r1: "(1::rat) \<le> of_int r" and r9: "(of_int r :: rat) \<le> 9"
      using r nz by simp_all
    have "of_int q + 1 / 10 - 1 / 2 ^ 22 < p"
      using pq tiny r1 by linarith
    moreover have "p \<le> of_int q + 9 / 10"
    proof -
      have "(0::rat) \<le> of_nat n / (5 * 2 ^ 54)" by simp
      then show ?thesis using pq r9 by linarith
    qed
    moreover have "(1 / 2 ^ 21 :: rat) < 1 / 20" "(1 / 2 ^ 22 :: rat) < 1 / 20" by simp_all
    ultimately have "of_int q < y" "y < of_int q + 1"
      using yp by linarith+
    then have "\<lfloor>y\<rfloor> = q" by (rule floor_in_unit)
    then show ?thesis using y(1) by blast
  qed
  then show ?thesis
    by (auto simp: estimatedFailed_def mul q_def)
qed


lemma estimatedAttempts_sum:
  assumes n: "n < 2 ^ 32"
  shows "estimatedAttempts n = Num (of_nat (n + nat ((3 * int n) div 10)))"
proof -
  define q where "q = (3 * int n) div 10"
  have q0: "0 \<le> q" by (simp add: q_def)
  have qn: "q \<le> 3 * int n" unfolding q_def by (simp add: div_le_dividend) 
  have "int n + q < 2 ^ 53" using n qn by simp
  then have small: "\<bar>int n + q\<bar> < 2 ^ 53" using q0 by simp
  have "estimatedAttempts n = fl (of_nat n + of_int q)"
    by (simp add: estimatedAttempts_def estimatedFailed_floor[OF n] q_def)
  also have "of_nat n + of_int q = (of_int (int n + q) :: rat)" by simp
  also have "fl (of_int (int n + q)) = Num (of_int (int n + q))"
    using small by (rule fl_int)
  also have "(of_int (int n + q) :: rat) = of_nat (n + nat q)"
    using q0 by simp
  finally show ?thesis by (simp add: q_def)
qed

lemma floor_near_int:
  fixes v :: rat
  assumes "\<bar>v - of_int k\<bar> < 1 / 2"
  shows "\<lfloor>v + 1 / 2\<rfloor> = k"
proof -
  have "of_int k \<le> v + 1 / 2" "v + 1 / 2 < of_int k + 1" using assms by linarith+
  then show ?thesis by linarith
qed

lemma fl_error_range:
  assumes "1 / 2 ^ 53 \<le> \<bar>x\<bar>" "\<bar>x\<bar> < 2 ^ 60"
  shows "\<exists>r. fl x = Num r \<and> \<bar>r - x\<bar> \<le> \<bar>x\<bar> / 2 ^ 53"
  using fl_error[of x] pow2_m1022_le[OF assms(1)] less_pow2_1023[OF assms(2)] by blast

text \<open>
  \<open>(100 - s).toFixed(2)\<close> for a string \<open>s\<close> with two decimals from 0.00 to 100.00: the
  string of the complement to 100.
\<close>

lemma failureRate_complement:
  assumes s: "s \<le> 10000"
  shows "toFixed2 (js_sub (Num 100) (to_number (Fixed False s))) = Fixed False (10000 - s)"
proof -
  define x :: rat where "x = of_nat s / 100"
  have x0: "0 \<le> x" by (simp add: x_def)
  have x100: "x \<le> 100"
  proof -
    have "(of_nat s :: rat) \<le> of_nat 10000" using s by (simp only: of_nat_le_iff)
    then show ?thesis by (simp add: x_def)
  qed
  have ton: "to_number (Fixed False s) = fl x" by (simp add: x_def)
  have "\<exists>z. fl x = Num z \<and> \<bar>z - x\<bar> \<le> 100 / 2 ^ 53"
  proof (cases "s = 0")
    case True
    then show ?thesis by (simp add: x_def)
  next
    case False
    then have "(1::rat) \<le> of_nat s" by simp
    then have "1 / 2 ^ 53 \<le> \<bar>x\<bar>" by (simp add: x_def)
    moreover have "\<bar>x\<bar> < 2 ^ 60" using x0 x100 by simp
    ultimately obtain z where z: "fl x = Num z" "\<bar>z - x\<bar> \<le> \<bar>x\<bar> / 2 ^ 53"
      using fl_error_range by blast
    have "\<bar>x\<bar> / 2 ^ 53 \<le> 100 / 2 ^ 53" using x0 x100 by simp
    then show ?thesis using z by (intro exI[of _ z]) simp
  qed
  then obtain z where z: "fl x = Num z" "\<bar>z - x\<bar> \<le> 100 / 2 ^ 53" by blast
  have sub: "js_sub (Num 100) (to_number (Fixed False s)) = fl (100 - z)"
    unfolding ton z(1) js_sub_def by simp
  show ?thesis
  proof (cases "s = 10000")
    case True
    have "fl x = fl (of_int 100)" by (simp add: x_def True)
    also have "\<dots> = Num (of_int 100)" by (rule fl_int) simp
    finally have "z = 100" using z(1) by simp
    then have "toFixed2 (fl (100 - z)) = Fixed False (10000 - s)" using True by simp
    then show ?thesis by (simp only: sub)
  next
    case False
    then have s9: "s \<le> 9999" using s by simp
    have sx: "(of_nat s :: rat) = 100 * x" by (simp add: x_def)
    have "(of_nat s :: rat) \<le> of_nat 9999" using s9 by (simp only: of_nat_le_iff)
    then have x99: "x \<le> 9999 / 100" by (simp add: x_def)
    define v where "v = 100 - z"
    define d :: rat where "d = 101 / 2 ^ 53"
    have d: "0 < d" "d < 1 / 100000" by (simp_all add: d_def)
    have zd: "\<bar>z - x\<bar> \<le> d"
    proof -
      have "(100 / 2 ^ 53 :: rat) \<le> d" by (simp add: d_def)
      then show ?thesis using z(2) by linarith
    qed
    have v: "v = 100 - z" by (simp add: v_def)
    have vlo: "1 / 200 \<le> v" using zd x99 d v by linarith
    have vhi: "v \<le> 101" using zd x0 d v by linarith
    have "(1 / 2 ^ 53 :: rat) \<le> 1 / 200" by simp
    then have "1 / 2 ^ 53 \<le> \<bar>v\<bar>" using vlo by linarith
    moreover have "\<bar>v\<bar> < 2 ^ 60" using vlo vhi by simp
    ultimately obtain w where w: "fl v = Num w" "\<bar>w - v\<bar> \<le> \<bar>v\<bar> / 2 ^ 53"
      using fl_error_range by blast
    have "\<bar>v\<bar> / 2 ^ 53 \<le> d" using vlo vhi by (simp add: d_def)
    then have wv: "\<bar>w - v\<bar> \<le> d" using w(2) by linarith
    have wpos: "0 < w" using wv vlo d by linarith
    have "w < 102" using wv vhi d by linarith
    then have wsmall: "\<bar>w\<bar> < 10 ^ 21" using wpos by simp
    have target: "(of_int (int (10000 - s)) :: rat) = 10000 - 100 * x"
      using s by (simp add: sx[symmetric] of_nat_diff)
    have "\<bar>w * 100 - (10000 - 100 * x)\<bar> < 1 / 2"
      using wv zd d v by linarith
    then have "\<bar>w * 100 - of_int (int (10000 - s))\<bar> < 1 / 2"
      by (simp only: target)
    then have "\<lfloor>w * 100 + 1 / 2\<rfloor> = int (10000 - s)" by (rule floor_near_int)
    then have "nat \<lfloor>\<bar>w\<bar> * 100 + 1 / 2\<rfloor> = 10000 - s" using wpos by simp
    then have "toFixed2 (fl v) = Fixed False (10000 - s)"
      using wpos wsmall by (simp add: w(1))
    then show ?thesis by (simp only: sub v_def)
  qed
qed


text \<open>
  \<open>((n / t) * 100).toFixed(2)\<close> where \<open>t\<close> is \<open>n\<close> plus the estimated failures: a
  hundredth nearest to \<open>100 n / t\<close>, between 0.01 and 100.00.
\<close>

lemma successRate_nearest:
  assumes n0: "0 < n" and n: "n < 2 ^ 32"
  defines "t \<equiv> n + nat ((3 * int n) div 10)"
  shows "\<exists>s. successRate_var n = JString (Fixed False s)
           \<and> \<bar>(of_nat s :: rat) / 100 - 100 * of_nat n / of_nat t\<bar> \<le> 1 / 200
           \<and> 0 < s \<and> s \<le> 10000"
proof -
  define q where "q = (3 * int n) div 10"
  define T :: rat where "T = of_nat t"
  define A :: rat where "A = of_nat n"
  define x where "x = A / T"
  have q0: "0 \<le> q" by (simp add: q_def)
  have q10: "10 * q \<le> 3 * int n" unfolding q_def by presburger
  have t: "int t = int n + q" using q0 by (simp add: t_def q_def)
  have TA: "T = A + of_int q"
  proof -
    have "(of_int (int t) :: rat) = of_int (int n + q)" by (simp only: t)
    then show ?thesis by (simp add: T_def A_def)
  qed
  have A1: "1 \<le> A" using n0 by (simp add: A_def)
  have A32: "A < 2 ^ 32"
  proof -
    have "(of_nat n :: rat) < of_nat (2 ^ 32)" using n by (simp only: of_nat_less_iff)
    then show ?thesis by (simp add: A_def)
  qed
  have Q0: "(0::rat) \<le> of_int q" using q0 by simp
  have Q10: "10 * (of_int q :: rat) \<le> 3 * A"
  proof -
    have "(of_int (10 * q) :: rat) \<le> of_int (3 * int n)" using q10 by (simp only: of_int_le_iff)
    then show ?thesis by (simp add: A_def)
  qed
  have TgeA: "A \<le> T" and T13: "10 * T \<le> 13 * A" using TA Q0 Q10 by linarith+
  have Tpos: "0 < T" using TgeA A1 by linarith
  have T33: "T < 2 ^ 33" using T13 A32 by simp
  have x1: "x \<le> 1" using TgeA Tpos by (simp add: x_def)
  have xlo: "10 / 13 \<le> x" using T13 Tpos by (simp add: x_def field_simps)
  have att: "estimatedAttempts n = Num T"
    using estimatedAttempts_sum[OF n] by (simp add: T_def t_def)
  define d :: rat where "d = 1 / 2 ^ 53"
  have d: "0 < d" "d < 1 / 1000000" by (simp_all add: d_def)
  have "1 / 2 ^ 53 \<le> \<bar>x\<bar>" using xlo by simp
  moreover have "\<bar>x\<bar> < 2 ^ 60" using xlo x1 by simp
  ultimately obtain y1 where y1: "fl x = Num y1" "\<bar>y1 - x\<bar> \<le> \<bar>x\<bar> / 2 ^ 53"
    using fl_error_range by blast
  have "\<bar>x\<bar> / 2 ^ 53 \<le> d" using xlo x1 by (simp add: d_def)
  then have y1x: "\<bar>y1 - x\<bar> \<le> d" using y1(2) by linarith
  have y1lo: "1 / 2 \<le> y1" and y1hi: "y1 \<le> 2" using y1x xlo x1 d by linarith+
  define v where "v = y1 * 100"
  have vlo: "50 \<le> v" and vhi: "v \<le> 200" using y1lo y1hi by (simp_all add: v_def)
  have "1 / 2 ^ 53 \<le> \<bar>v\<bar>" using vlo by simp
  moreover have "\<bar>v\<bar> < 2 ^ 60" using vlo vhi by simp
  ultimately obtain y2 where y2: "fl v = Num y2" "\<bar>y2 - v\<bar> \<le> \<bar>v\<bar> / 2 ^ 53"
    using fl_error_range by blast
  have "\<bar>v\<bar> / 2 ^ 53 \<le> 200 * d" using vlo vhi by (simp add: d_def)
  then have y2v: "\<bar>y2 - v\<bar> \<le> 200 * d" using y2(2) by linarith
  have v100: "v = 100 * y1" by (simp add: v_def)
  have y2x: "\<bar>y2 - 100 * x\<bar> \<le> 300 * d" using y2v y1x v100 by linarith
  have y2pos: "0 < y2" and y2hi: "y2 < 300" using y2v vlo vhi d by linarith+
  have y2small: "\<bar>y2\<bar> < 10 ^ 21" using y2pos y2hi by simp
  define N where "N = \<lfloor>y2 * 100 + 1 / 2\<rfloor>"
  have rate: "successRate_var n = JString (Fixed False (nat N))"
    using Tpos n0 y2pos y2small
    by (simp add: successRate_var_def att y1(1) y2(1) N_def flip: x_def v_def A_def)
  have frac: "of_int (100 * int n) / of_int (int t) = 100 * x"
    by (simp add: x_def A_def T_def)
  have "\<bar>y2 - 100 * x\<bar> * (200 * T) \<le> 300 * d * (200 * T)"
    using y2x Tpos by (intro mult_right_mono) simp_all
  also have "300 * d * (200 * T) < 300 * d * (200 * 2 ^ 33)"
    using T33 d(1) by simp
  also have "300 * d * (200 * 2 ^ 33) < 1" by (simp add: d_def)
  finally have "\<bar>y2 - of_int (100 * int n) / of_int (int t)\<bar> * (200 * of_int (int t)) < 1"
    by (simp only: frac) (simp add: T_def)
  moreover have "0 < int t" using Tpos by (simp add: T_def)
  ultimately have near0: "\<bar>(of_int N :: rat) / 100 - of_int (100 * int n) / of_int (int t)\<bar> \<le> 1 / 200"
    unfolding N_def by (intro hundredths_nearest)
  then have near: "\<bar>(of_int N :: rat) / 100 - 100 * x\<bar> \<le> 1 / 200" by (simp only: frac)
  have "(of_int N :: rat) < 10001" using near x1 by linarith
  then have "(of_int N :: rat) < of_int 10001" by simp
  then have "N < 10001" by (simp only: of_int_less_iff)
  then have N10000: "N \<le> 10000" by simp
  have "(0 :: rat) < of_int N" using near xlo by linarith
  then have "(of_int 0 :: rat) < of_int N" by simp
  then have Npos: "0 < N" by (simp only: of_int_less_iff)
  have sN: "(of_nat (nat N) :: rat) = of_int N" using Npos by simp
  have "\<bar>(of_nat (nat N) :: rat) / 100 - 100 * of_nat n / of_nat t\<bar> \<le> 1 / 200"
    using near by (simp add: sN x_def A_def T_def)
  then show ?thesis using rate Npos N10000 by (intro exI[of _ "nat N"]) simp
qed


section \<open>Challenge statistics: categories, difficulties and solved challenges\<close>

lemma inherited_constructor: "inherited ''constructor''"
  by (simp add: inherited_def object_prototype_keys_def)

lemma inherited_toString: "inherited ''toString''"
  by (simp add: inherited_def object_prototype_keys_def)

lemma not_inherited_samples:
  "\<not> inherited ''web''" "\<not> inherited ''pwn''" "\<not> inherited ''misc''"
  "\<not> inherited ''easy''" "\<not> inherited ''hard''"
  by (simp_all add: inherited_def object_prototype_keys_def)



text \<open>
  A difficulty that names an inherited property gets no entry: the guard reads the
  inherited function and the updates land on it.
\<close>

lemma byDifficulty_inherited_label:
  "byDifficulty (get_challenge_stats [web_challenge, toString_challenge])
     = [(''easy'', \<lparr> diff_count = 1, avgPoints = 100 \<rparr>)]"
  by (simp add: byDifficulty_stats byDifficulty_step_def upsert_def web_challenge_def
      toString_challenge_def not_inherited_samples inherited_toString)

text \<open>
  Claim C4. The \<open>count\<close> fields of \<open>byCategory\<close> add up to the number of challenges
  whose category is not the name of an inherited property, and the \<open>solved\<close> fields to
  the solver-array lengths of those challenges. With a challenge of category
  \<open>constructor\<close> in a collection of two, each solved once, the sums are 1 and 1, where
  the claim has 2 (the number of challenges) and 2 (the solves).
\<close>

theorem byCategory_sums:
  "sum_list (map (\<lambda>p. cat_count (snd p)) (byCategory (get_challenge_stats cs)))
     = length (filter (\<lambda>c. \<not> inherited (category c)) cs)
   \<and> sum_list (map (\<lambda>p. cat_solved (snd p)) (byCategory (get_challenge_stats cs)))
     = sum_list (map (\<lambda>c. length_or0 (solvedBy c)) (filter (\<lambda>c. \<not> inherited (category c)) cs))
   \<and> sum_list (map (\<lambda>p. cat_count (snd p))
        (byCategory (get_challenge_stats [web_challenge, constructor_challenge \<lparr> solvedBy := Some [bob] \<rparr>]))) = 1
   \<and> sum_list (map (\<lambda>p. cat_solved (snd p))
        (byCategory (get_challenge_stats [web_challenge, constructor_challenge \<lparr> solvedBy := Some [bob] \<rparr>]))) = 1
   \<and> length [web_challenge, constructor_challenge \<lparr> solvedBy := Some [bob] \<rparr>] = 2
   \<and> sum_list (map (\<lambda>c. length_or0 (solvedBy c))
        [web_challenge, constructor_challenge \<lparr> solvedBy := Some [bob] \<rparr>]) = 2"
  by (simp add: byCategory_count_sum byCategory_solved_sum web_challenge_def
      constructor_challenge_def inherited_constructor not_inherited_samples length_or0_def)

text \<open>On a collection without such a label both sums are the totals.\<close>

lemma byCategory_sums_ordinary_labels:
  assumes "\<forall>c \<in> set cs. \<not> inherited (category c)"
  shows "sum_list (map (\<lambda>p. cat_count (snd p)) (byCategory (get_challenge_stats cs))) = length cs"
    and "sum_list (map (\<lambda>p. cat_solved (snd p)) (byCategory (get_challenge_stats cs)))
         = sum_list (map (\<lambda>c. length_or0 (solvedBy c)) cs)"
proof -
  have "filter (\<lambda>c. \<not> inherited (category c)) cs = cs"
    using assms by (simp add: filter_id_conv)
  then show "sum_list (map (\<lambda>p. cat_count (snd p)) (byCategory (get_challenge_stats cs))) = length cs"
    and "sum_list (map (\<lambda>p. cat_solved (snd p)) (byCategory (get_challenge_stats cs)))
         = sum_list (map (\<lambda>c. length_or0 (solvedBy c)) cs)"
    by (simp_all add: byCategory_count_sum byCategory_solved_sum)
qed

text \<open>
  Claim C7. \<open>solvedChallenges\<close> is the list of the challenges with at least one solver,
  in collection order, each projected with its solvers. A challenge without solvers is
  absent from it and is counted under its category and its difficulty like any other,
  when the label is not the name of an inherited property; when it is, neither object
  has an entry for it: a challenge of category \<open>constructor\<close> without solvers, alone in
  the collection, leaves \<open>byCategory\<close> empty, where the claim has it counted.
\<close>

theorem solvedChallenges_and_unsolved_counted:
  "st_solvedChallenges (get_challenge_stats cs)
     = map (\<lambda>c. solved_projection c (case solvedBy c of None \<Rightarrow> [] | Some us \<Rightarrow> us))
         (filter (\<lambda>c. 0 < length_or0 (solvedBy c)) cs)
   \<and> (\<forall>c \<in> set cs. length_or0 (solvedBy c) = 0 \<longrightarrow>
        (if inherited (category c)
         then map_of (byCategory (get_challenge_stats cs)) (category c) = None
         else \<exists>e. map_of (byCategory (get_challenge_stats cs)) (category c) = Some e
                  \<and> cat_count e = length (filter (\<lambda>d. category d = category c) cs)
                  \<and> 0 < cat_count e)
      \<and> (if inherited (difficulty c)
         then map_of (byDifficulty (get_challenge_stats cs)) (difficulty c) = None
         else \<exists>e. map_of (byDifficulty (get_challenge_stats cs)) (difficulty c) = Some e
                  \<and> diff_count e = length (filter (\<lambda>d. difficulty d = difficulty c) cs)
                  \<and> 0 < diff_count e))
   \<and> byCategory (get_challenge_stats [constructor_challenge]) = []
   \<and> st_solvedChallenges (get_challenge_stats [constructor_challenge]) = []"
proof -
  have sc: "st_solvedChallenges (get_challenge_stats cs)
     = map (\<lambda>c. solved_projection c (case solvedBy c of None \<Rightarrow> [] | Some us \<Rightarrow> us))
         (filter (\<lambda>c. 0 < length_or0 (solvedBy c)) cs)"
  proof -
    have "filter (\<lambda>c. (case solvedBy c of None \<Rightarrow> [] | Some us \<Rightarrow> us) \<noteq> []) cs
          = filter (\<lambda>c. 0 < length_or0 (solvedBy c)) cs"
      by (rule filter_cong) (auto simp: length_or0_def split: option.splits)
    then show ?thesis
      by (simp add: solvedChallenges_stats foldl_solvedChallenges_step)
  qed
  have cnt: "0 < length (filter (\<lambda>d. key d = key c) cs)" if "c \<in> set cs"
    for c :: challenge and key :: "challenge \<Rightarrow> string"
    using that by (induction cs) auto
  have each: "\<forall>c \<in> set cs. length_or0 (solvedBy c) = 0 \<longrightarrow>
        (if inherited (category c)
         then map_of (byCategory (get_challenge_stats cs)) (category c) = None
         else \<exists>e. map_of (byCategory (get_challenge_stats cs)) (category c) = Some e
                  \<and> cat_count e = length (filter (\<lambda>d. category d = category c) cs)
                  \<and> 0 < cat_count e)
      \<and> (if inherited (difficulty c)
         then map_of (byDifficulty (get_challenge_stats cs)) (difficulty c) = None
         else \<exists>e. map_of (byDifficulty (get_challenge_stats cs)) (difficulty c) = Some e
                  \<and> diff_count e = length (filter (\<lambda>d. difficulty d = difficulty c) cs)
                  \<and> 0 < diff_count e)"
    using cnt by (simp add: byCategory_lookup byDifficulty_lookup)
  have bad: "byCategory (get_challenge_stats [constructor_challenge]) = []"
    by (simp add: byCategory_stats byCategory_step_def upsert_def constructor_challenge_def
        inherited_constructor)
  have bad2: "st_solvedChallenges (get_challenge_stats [constructor_challenge]) = []"
    by (simp add: solvedChallenges_stats solvedChallenges_step_def constructor_challenge_def)
  from sc each bad bad2 show ?thesis by blast
qed

theorem solvedChallenges_and_unsolved_counted_witness:
  "map sc_title (st_solvedChallenges (get_challenge_stats [web_challenge, unsolved_challenge])) = [''sqli'']
   \<and> map_of (byCategory (get_challenge_stats [web_challenge, unsolved_challenge])) ''pwn''
       = Some \<lparr> cat_count = 1, cat_solved = 0 \<rparr>
   \<and> map_of (byDifficulty (get_challenge_stats [web_challenge, unsolved_challenge])) ''hard''
       = Some \<lparr> diff_count = 1, avgPoints = 500 \<rparr>"
  using solvedChallenges_and_unsolved_counted [of "[web_challenge, unsolved_challenge]"]
  by (simp add: byCategory_lookup byDifficulty_lookup web_challenge_def unsolved_challenge_def
      not_inherited_samples length_or0_def solved_projection_def)


section \<open>Submissions: the estimate\<close>

lemma foldl_user_step:
  "acc_total (foldl user_step acc users)
     = acc_total acc + sum_list (map (\<lambda>u. length_or0 (solvedChallenges u)) users)
   \<and> acc_successful (foldl user_step acc users)
     = acc_successful acc + sum_list (map (\<lambda>u. length_or0 (solvedChallenges u)) users)"
  by (induction users arbitrary: acc) (simp_all add: user_step_def Let_def)

lemma submissions_overview:
  defines "solved \<equiv> \<lambda>users. sum_list (map (\<lambda>u. length_or0 (solvedChallenges u)) users)"
  shows "fst (get_submissions users challenges)
     = \<lparr> totalSubmissions = solved users,
         successfulSubmissions = solved users,
         estimatedFailedSubmissions = estimatedFailed (solved users),
         estimatedTotalAttempts = estimatedAttempts (solved users),
         successRate = value_to_number (successRate_var (solved users)),
         failureRate = to_number (failureRate_var (solved users)) \<rparr>"
  by (simp add: get_submissions_def Let_def foldl_user_step solved_def)

lemma rates_of_no_submissions:
  "successRate_var 0 = JNumber (Num 0)" "failureRate_var 0 = Fixed False 10000"
proof -
  have att: "estimatedAttempts 0 = Num 0"
    using estimatedAttempts_sum[of 0] by simp
  show s: "successRate_var 0 = JNumber (Num 0)"
    by (simp add: successRate_var_def att)
  show "failureRate_var 0 = Fixed False 10000"
    using failureRate_complement[of 0] by (simp add: failureRate_var_def s)
qed

lemma scenario_rate: "toFixed2 (js_mul (fl (10 / 13)) (Num 100)) = Fixed False 7692"
  by code_simp

text \<open>A tie: 3077 successes give 4000 attempts and the rate 76.925, printed as 76.92.\<close>

lemma tie_rate: "toFixed2 (js_mul (fl (3077 / 4000)) (Num 100)) = Fixed False 7692"
  by code_simp

text \<open>
  Claim C1. With fewer than \<open>2^32\<close> solved challenges over all users (\<open>n\<close> of them):
  \<open>estimatedFailedSubmissions\<close> is \<open>floor(3 n / 10)\<close>, although the code multiplies by the
  Number nearest to 0.3, and \<open>estimatedTotalAttempts\<close> is \<open>n\<close> plus that. For \<open>n = 0\<close>,
  where the attempts are 0, \<open>successRate\<close> is the Number 0 (and \<open>failureRate\<close> the string
  100.00). For \<open>n > 0\<close>, \<open>successRate\<close> is a string of \<open>s\<close> hundredths, a hundredth
  nearest to \<open>100 n / attempts\<close>, and \<open>failureRate\<close> is the string of \<open>10000 - s\<close>
  hundredths: the two add up to 100.00. The response carries both as the Numbers that
  \<open>parseFloat\<close> reads from the strings. For \<open>n = 10\<close>: 3 failures, 13 attempts, 76.92
  and 23.08.
\<close>

theorem submission_estimates:
  fixes users :: "user list" and challenges :: "challenge list"
  defines "ov \<equiv> fst (get_submissions users challenges)"
  defines "n \<equiv> totalSubmissions ov"
  defines "failed \<equiv> (3 * int n) div 10"
  assumes bound: "sum_list (map (\<lambda>u. length_or0 (solvedChallenges u)) users) < 2 ^ 32"
  shows "n = sum_list (map (\<lambda>u. length_or0 (solvedChallenges u)) users)
    \<and> successfulSubmissions ov = n
    \<and> failed = \<lfloor>(of_nat n :: rat) * 3 / 10\<rfloor>
    \<and> estimatedFailedSubmissions ov = Num (of_int failed)
    \<and> estimatedTotalAttempts ov = Num (of_nat n + of_int failed)
    \<and> (n = 0 \<longrightarrow> successRate_var n = JNumber (Num 0) \<and> failureRate_var n = Fixed False 10000)
    \<and> (0 < n \<longrightarrow>
         (\<exists>s. successRate_var n = JString (Fixed False s)
            \<and> failureRate_var n = Fixed False (10000 - s)
            \<and> s \<le> 10000
            \<and> \<bar>(of_nat s :: rat) / 100 - 100 * of_nat n / (of_nat n + of_int failed)\<bar> \<le> 1 / 200))
    \<and> successRate ov = value_to_number (successRate_var n)
    \<and> failureRate ov = to_number (failureRate_var n)
    \<and> estimatedFailed 10 = Num 3 \<and> estimatedAttempts 10 = Num 13
    \<and> successRate_var 10 = JString (Fixed False 7692)
    \<and> failureRate_var 10 = Fixed False 2308"
proof -
  have n: "n = sum_list (map (\<lambda>u. length_or0 (solvedChallenges u)) users)"
    by (simp add: n_def ov_def submissions_overview)
  have n32: "n < 2 ^ 32" using bound by (simp add: n)
  have ov: "successfulSubmissions ov = n"
    "estimatedFailedSubmissions ov = estimatedFailed n"
    "estimatedTotalAttempts ov = estimatedAttempts n"
    "successRate ov = value_to_number (successRate_var n)"
    "failureRate ov = to_number (failureRate_var n)"
    by (simp_all add: n ov_def submissions_overview)
  have fl: "failed = \<lfloor>(of_nat n :: rat) * 3 / 10\<rfloor>"
  proof -
    have "\<lfloor>(of_int (int n * 3) :: rat) / of_int 10\<rfloor> = (int n * 3) div 10"
      by (rule floor_divide_of_int_eq)
    then show ?thesis by (simp add: failed_def mult.commute)
  qed
  have f0: "0 \<le> failed" by (simp add: failed_def)
  have ef: "estimatedFailedSubmissions ov = Num (of_int failed)"
    by (simp add: ov estimatedFailed_floor[OF n32] failed_def)
  have ea: "estimatedTotalAttempts ov = Num (of_nat n + of_int failed)"
    using f0 by (simp add: ov estimatedAttempts_sum[OF n32] failed_def)
  have zero: "n = 0 \<longrightarrow> successRate_var n = JNumber (Num 0) \<and> failureRate_var n = Fixed False 10000"
    by (simp add: rates_of_no_submissions)
  have pos: "0 < n \<longrightarrow>
         (\<exists>s. successRate_var n = JString (Fixed False s)
            \<and> failureRate_var n = Fixed False (10000 - s)
            \<and> s \<le> 10000
            \<and> \<bar>(of_nat s :: rat) / 100 - 100 * of_nat n / (of_nat n + of_int failed)\<bar> \<le> 1 / 200)"
  proof
    assume "0 < n"
    from successRate_nearest[OF this n32] obtain s where
      s: "successRate_var n = JString (Fixed False s)"
         "\<bar>(of_nat s :: rat) / 100 - 100 * of_nat n / of_nat (n + nat ((3 * int n) div 10))\<bar> \<le> 1 / 200"
         "s \<le> 10000"
      by blast
    have "failureRate_var n = Fixed False (10000 - s)"
      using failureRate_complement[OF s(3)] by (simp add: failureRate_var_def s(1))
    moreover have "(of_nat (n + nat ((3 * int n) div 10)) :: rat) = of_nat n + of_int failed"
      using f0 by (simp add: failed_def)
    ultimately show "\<exists>s. successRate_var n = JString (Fixed False s)
            \<and> failureRate_var n = Fixed False (10000 - s)
            \<and> s \<le> 10000
            \<and> \<bar>(of_nat s :: rat) / 100 - 100 * of_nat n / (of_nat n + of_int failed)\<bar> \<le> 1 / 200"
      using s by (intro exI[of _ s]) simp
  qed
  have ten: "estimatedFailed 10 = Num 3" "estimatedAttempts 10 = Num 13"
    using estimatedFailed_floor[of 10] estimatedAttempts_sum[of 10] by simp_all
  have rate10: "successRate_var 10 = JString (Fixed False 7692)"
    by (simp add: successRate_var_def ten scenario_rate)
  have fail10: "failureRate_var 10 = Fixed False 2308"
    using failureRate_complement[of 7692] by (simp add: failureRate_var_def rate10)
  from n ov(1) fl ef ea zero pos ov(4,5) ten rate10 fail10 show ?thesis by blast
qed

theorem submission_estimates_witness:
  "totalSubmissions (fst (get_submissions [alice, alice] [])) = 10
   \<and> estimatedFailedSubmissions (fst (get_submissions [alice, alice] [])) = Num 3
   \<and> estimatedTotalAttempts (fst (get_submissions [alice, alice] [])) = Num 13
   \<and> successRate (fst (get_submissions [alice, alice] [])) = fl (7692 / 100)
   \<and> failureRate (fst (get_submissions [alice, alice] [])) = fl (2308 / 100)"
  using submission_estimates [of "[alice, alice]" "[]"]
  by (simp add: submissions_overview alice_def length_or0_def)

end
